theory Spec2Isabelle
  imports Complex_Main "HOL-Library.AList" "HOL-Library.Log_Nat"
begin

section \<open>Python strings\<close>

text \<open>
  Strings are lists of 8-bit characters. Text outside ASCII (the emoji of the title
  templates) is carried as its UTF-8 bytes. \<open>str.lower\<close> and \<open>str.upper\<close> are Python's
  on the ASCII letters and leave every other character alone; Python also maps
  letters outside ASCII, among them U+212A to \<open>k\<close> and U+0130 to \<open>i\<close> with a combining
  dot, which this model does not do.
\<close>

definition ascii_uppercase :: string where
  "ascii_uppercase = ''ABCDEFGHIJKLMNOPQRSTUVWXYZ''"

definition ascii_lowercase :: string where
  "ascii_lowercase = ''abcdefghijklmnopqrstuvwxyz''"

definition lower_char :: "char \<Rightarrow> char" where
  "lower_char c =
     (case map_of (zip ascii_uppercase ascii_lowercase) c of Some l \<Rightarrow> l | None \<Rightarrow> c)"

definition upper_char :: "char \<Rightarrow> char" where
  "upper_char c =
     (case map_of (zip ascii_lowercase ascii_uppercase) c of Some u \<Rightarrow> u | None \<Rightarrow> c)"

definition str_lower :: "string \<Rightarrow> string" where
  "str_lower s = map lower_char s"

definition str_upper :: "string \<Rightarrow> string" where
  "str_upper s = map upper_char s"

text \<open>
  \<open>s.count(sub)\<close> scans \<open>s\<close> from the left; after a match it resumes behind the end of
  the match, so the matches it counts never overlap. For the empty \<open>sub\<close> Python
  answers \<open>len(s) + 1\<close>.
\<close>

function count_scan :: "string \<Rightarrow> string \<Rightarrow> nat" where
  "count_scan sub [] = 0"
| "count_scan sub (c # cs) =
     (if take (length sub) (c # cs) = sub
      then Suc (count_scan sub (drop (length sub - 1) cs))
      else count_scan sub cs)"
  by pat_completeness auto
termination
  by (relation "measure (\<lambda>(sub, s). length s)") auto

definition str_count :: "string \<Rightarrow> string \<Rightarrow> nat" where
  "str_count s sub = (if sub = [] then length s + 1 else count_scan sub s)"

text \<open>\<open>s.split(sep)\<close> for a one-character separator, and \<open>sep.join(xs)\<close>.\<close>

fun split_from :: "char \<Rightarrow> string \<Rightarrow> string \<Rightarrow> string list" where
  "split_from sep cur [] = [cur]"
| "split_from sep cur (c # cs) =
     (if c = sep then cur # split_from sep [] cs else split_from sep (cur @ [c]) cs)"

definition str_split :: "string \<Rightarrow> char \<Rightarrow> string list" where
  "str_split s sep = split_from sep [] s"

fun str_join :: "string \<Rightarrow> string list \<Rightarrow> string" where
  "str_join sep [] = []"
| "str_join sep [x] = x"
| "str_join sep (x # y # ys) = x @ sep @ str_join sep (y # ys)"

text \<open>Truth value of an optional string: \<open>None\<close> and \<open>''\<close> are false.\<close>

fun truthy :: "string option \<Rightarrow> bool" where
  "truthy None = False"
| "truthy (Some s) = (s \<noteq> [])"


section \<open>Content analysis\<close>

definition highlight_keywords :: "(string \<times> string list) list" where
  "highlight_keywords =
    [(''excitement'',
        [''wow'', ''amazing'', ''incredible'', ''perfect'', ''clutch'', ''insane'', ''crazy'']),
     (''action'', [''headshot'', ''kill'', ''victory'', ''win'', ''champion'', ''eliminated'']),
     (''reaction'', [''omg'', ''wtf'', ''holy'', ''jesus'', ''god'', ''damn'']),
     (''skill'', [''pro'', ''skilled'', ''talent'', ''god-tier'', ''masterclass''])]"

text \<open>
  The result dictionary. \<open>categories\<close> is itself a dictionary; it is kept as an
  association list, because the order in which its keys were inserted decides the
  dominant emotion (\<open>AList.update\<close> overwrites a key in place and appends a new one,
  as assignment to a Python dict does).
\<close>

record content_analysis =
  total_score :: nat
  categories :: "(string \<times> nat) list"
  dominant_emotion :: string

fun score_loop ::
  "string \<Rightarrow> (string \<times> string list) list \<Rightarrow> content_analysis \<Rightarrow> content_analysis" where
  "score_loop transcription_lower [] ca = ca"
| "score_loop transcription_lower ((category, keywords) # rest) ca =
     (let category_score = sum_list (map (str_count transcription_lower) keywords)
      in score_loop transcription_lower rest
           (ca\<lparr>categories := AList.update category category_score (categories ca),
               total_score := total_score ca + category_score\<rparr>))"

text \<open>
  \<open>max(first :: others, key=key)\<close>: the running maximum is replaced only by a strictly
  greater item, so among equal maxima the earliest stays.
\<close>

fun max_by_key :: "('a \<Rightarrow> nat) \<Rightarrow> 'a \<Rightarrow> 'a list \<Rightarrow> 'a" where
  "max_by_key key best [] = best"
| "max_by_key key best (x # xs) = max_by_key key (if key x > key best then x else best) xs"

definition analyze_content :: "string \<Rightarrow> content_analysis" where
  "analyze_content transcription =
    (let content_analysis = \<lparr>total_score = 0, categories = [], dominant_emotion = ''neutral''\<rparr>;
         transcription_lower = str_lower transcription;
         content_analysis = score_loop transcription_lower highlight_keywords content_analysis
     in case categories content_analysis of
          [] \<Rightarrow> content_analysis
        | item # items \<Rightarrow>
            (let max_category = max_by_key snd item items
             in if snd max_category > 0
                then content_analysis\<lparr>dominant_emotion := fst max_category\<rparr>
                else content_analysis))"

subsection \<open>Occurrences of a keyword, as the specification counts them\<close>

definition occurs_at :: "string \<Rightarrow> string \<Rightarrow> nat \<Rightarrow> bool" where
  "occurs_at sub s i \<longleftrightarrow> i + length sub \<le> length s \<and> take (length sub) (drop i s) = sub"

text \<open>Every position at which the keyword starts, overlapping ones included.\<close>

definition overlapping_occurrences :: "string \<Rightarrow> string \<Rightarrow> nat" where
  "overlapping_occurrences sub s = length (filter (occurs_at sub s) [0..<Suc (length s)])"

text \<open>
  A set of start positions of the keyword no two of which overlap, and the size of
  the largest such set.
\<close>

definition non_overlapping :: "string \<Rightarrow> string \<Rightarrow> nat set \<Rightarrow> bool" where
  "non_overlapping sub s P \<longleftrightarrow>
     (\<forall>i\<in>P. occurs_at sub s i) \<and> (\<forall>i\<in>P. \<forall>j\<in>P. i < j \<longrightarrow> i + length sub \<le> j)"

definition nonoverlapping_occurrences :: "string \<Rightarrow> string \<Rightarrow> nat" where
  "nonoverlapping_occurrences sub s = Max (card ` {P. non_overlapping sub s P})"


section \<open>Title generation\<close>

definition neutral_titles :: "string \<Rightarrow> string list" where
  "neutral_titles streamer_name =
    [''BEST '' @ streamer_name @ '' MOMENTS! '' @ [CHR 0xF0, CHR 0x9F, CHR 0x94, CHR 0xA5],
     streamer_name @ '' HIGHLIGHTS! '' @ [CHR 0xE2, CHR 0xAD, CHR 0x90],
     ''EPIC '' @ streamer_name @ '' CLIP! '' @ [CHR 0xF0, CHR 0x9F, CHR 0x8E, CHR 0xAE]]"

definition templates :: "string \<Rightarrow> (string \<times> string list) list" where
  "templates streamer_name =
    [(''excitement'',
        [''THIS '' @ str_upper streamer_name @ '' MOMENT IS INSANE! ''
           @ [CHR 0xF0, CHR 0x9F, CHR 0x94, CHR 0xA5],
         streamer_name @ '' GOES ABSOLUTELY CRAZY! '' @ [CHR 0xF0, CHR 0x9F, CHR 0x98, CHR 0xB1],
         ''UNBELIEVABLE '' @ streamer_name @ '' PLAY! ''
           @ [CHR 0xF0, CHR 0x9F, CHR 0xA4, CHR 0xAF]]),
     (''action'',
        [streamer_name @ '' DESTROYS EVERYONE! '' @ [CHR 0xF0, CHR 0x9F, CHR 0x92, CHR 0x80],
         ''UNSTOPPABLE '' @ streamer_name @ '' GAMEPLAY! ''
           @ [CHR 0xF0, CHR 0x9F, CHR 0x8E, CHR 0xAF],
         streamer_name @ '' DOMINATION! '' @ [CHR 0xE2, CHR 0x9A, CHR 0xA1]]),
     (''skill'',
        [streamer_name @ '' IS A LITERAL GOD! '' @ [CHR 0xF0, CHR 0x9F, CHR 0x91, CHR 0x91],
         ''PRO LEVEL '' @ streamer_name @ '' SKILLS! ''
           @ [CHR 0xF0, CHR 0x9F, CHR 0x8E, CHR 0xAF],
         streamer_name @ '' MASTERCLASS! '' @ [CHR 0xF0, CHR 0x9F, CHR 0x94, CHR 0xA5]]),
     (''neutral'', neutral_titles streamer_name)]"

text \<open>
  \<open>random.choice(seq)\<close> returns \<open>seq[i]\<close> for an index \<open>i\<close> it draws below \<open>len(seq)\<close>;
  the draw is an argument of the model. Every list it is applied to here has three
  elements.
\<close>

definition random_choice :: "nat \<Rightarrow> 'a list \<Rightarrow> 'a" where
  "random_choice draw seq = seq ! (draw mod length seq)"

definition selected_titles :: "string \<Rightarrow> string \<Rightarrow> string list" where
  "selected_titles streamer_name emotion =
     (case map_of (templates streamer_name) emotion of
        Some titles \<Rightarrow> titles
      | None \<Rightarrow> neutral_titles streamer_name)"

definition generate_engaging_title ::
  "nat \<Rightarrow> string \<Rightarrow> content_analysis \<Rightarrow> string \<Rightarrow> string" where
  "generate_engaging_title draw clip_title content_analysis streamer_name =
     (let emotion = dominant_emotion content_analysis
      in random_choice draw (selected_titles streamer_name emotion))"


section \<open>Events and errors\<close>

text \<open>
  What the program does to the outside world is recorded as a list of events. The
  outcome of every outside operation (an HTTP response, what a library call returns
  or whether it raises) is an argument of the model.
\<close>

datatype event =
    Load_whisper_model
  | Fetch_whisper_checkpoint
  | Mkdir string
  | Get_twitch_clips "string option"
  | Download_clip string string bool
  | Transcribe_audio string
  | Create_vertical_video string string bool
  | Trim_video string string bool
  | Upload_to_youtube_shorts string string bool
  | Os_remove string
  | Sleep nat
  | Http_post string
  | Http_put string
  | Open_read string

text \<open>
  \<open>Download_clip url filename result\<close>, \<open>Create_vertical_video input output result\<close>,
  \<open>Trim_video input output result\<close> and \<open>Upload_to_youtube_shorts path title result\<close>
  are the calls of the stages with what they returned. The calls that go to the
  network are the program's own requests and \<open>Fetch_whisper_checkpoint\<close>:
  \<open>Load_whisper_model\<close> is the library call \<open>whisper.load_model("base")\<close>, which reads
  the checkpoint from its cache directory and downloads it first when it is not
  there.
\<close>

fun is_network_call :: "event \<Rightarrow> bool" where
  "is_network_call Fetch_whisper_checkpoint = True"
| "is_network_call (Get_twitch_clips _) = True"
| "is_network_call (Download_clip _ _ _) = True"
| "is_network_call (Upload_to_youtube_shorts _ _ _) = True"
| "is_network_call (Http_post _) = True"
| "is_network_call (Http_put _) = True"
| "is_network_call _ = False"

datatype error = Exception string | AttributeError | ValueError | OSError string


section \<open>Initialisation and credentials\<close>

record automation =
  twitch_client_id :: "string option"
  twitch_client_secret :: "string option"
  twitch_streamer :: "string option"
  youtube_api_key :: "string option"
  youtube_client_id :: "string option"
  youtube_client_secret :: "string option"
  youtube_refresh_token :: "string option"
  youtube_streamers :: "string list"
  whisper_model :: bool

definition getenv_default :: "(string \<rightharpoonup> string) \<Rightarrow> string \<Rightarrow> string \<Rightarrow> string" where
  "getenv_default environ key fallback = (case environ key of Some v \<Rightarrow> v | None \<Rightarrow> fallback)"

definition required_creds :: "automation \<Rightarrow> (string \<times> string option) list" where
  "required_creds self =
    [(''TWITCH_CLIENT_ID'', twitch_client_id self),
     (''TWITCH_CLIENT_SECRET'', twitch_client_secret self),
     (''TWITCH_STREAMER_NAME'', twitch_streamer self),
     (''YOUTUBE_API_KEY'', youtube_api_key self),
     (''YOUTUBE_CLIENT_ID'', youtube_client_id self),
     (''YOUTUBE_CLIENT_SECRET'', youtube_client_secret self),
     (''YOUTUBE_REFRESH_TOKEN'', youtube_refresh_token self)]"

definition missing_creds :: "automation \<Rightarrow> string list" where
  "missing_creds self = map fst (filter (\<lambda>(key, v). \<not> truthy v) (required_creds self))"

definition validate_credentials :: "automation \<Rightarrow> error + unit" where
  "validate_credentials self =
     (if missing_creds self \<noteq> []
      then Inl (Exception (''Missing credentials: '' @ str_join '', '' (missing_creds self)))
      else Inr ())"

text \<open>
  \<open>__init__\<close>: reads the environment into the attributes, loads the Whisper model when
  the import succeeded (\<open>whisper_available\<close>; \<open>whisper_cached\<close> says whether the checkpoint
  is in the cache, \<open>whisper_loads\<close> whether \<open>load_model\<close> returned), creates the three
  directories and only then validates the credentials. \<open>Path(...).mkdir(exist_ok=True)\<close>
  is not guarded: where it cannot create the directory (\<open>mkdir_ok\<close>), its \<open>OSError\<close>
  leaves the constructor before the validation.
\<close>

definition load_attributes :: "(string \<rightharpoonup> string) \<Rightarrow> bool \<Rightarrow> bool \<Rightarrow> automation" where
  "load_attributes environ whisper_available whisper_loads =
     \<lparr>twitch_client_id = environ ''TWITCH_CLIENT_ID'',
      twitch_client_secret = environ ''TWITCH_CLIENT_SECRET'',
      twitch_streamer = environ ''TWITCH_STREAMER_NAME'',
      youtube_api_key = environ ''YOUTUBE_API_KEY'',
      youtube_client_id = environ ''YOUTUBE_CLIENT_ID'',
      youtube_client_secret = environ ''YOUTUBE_CLIENT_SECRET'',
      youtube_refresh_token = environ ''YOUTUBE_REFRESH_TOKEN'',
      youtube_streamers =
        str_split (getenv_default environ ''YOUTUBE_STREAMERS'' []) CHR '','',
      whisper_model = (whisper_available \<and> whisper_loads)\<rparr>"

fun make_dirs :: "(string \<Rightarrow> bool) \<Rightarrow> string list \<Rightarrow> error option \<times> event list" where
  "make_dirs mkdir_ok [] = (None, [])"
| "make_dirs mkdir_ok (path # paths) =
     (if mkdir_ok path
      then (let (failed, events) = make_dirs mkdir_ok paths in (failed, Mkdir path # events))
      else (Some (OSError path), [Mkdir path]))"

definition init ::
  "(string \<rightharpoonup> string) \<Rightarrow> bool \<Rightarrow> bool \<Rightarrow> bool \<Rightarrow> (string \<Rightarrow> bool)
     \<Rightarrow> (error + automation) \<times> event list" where
  "init environ whisper_available whisper_cached whisper_loads mkdir_ok =
    (let self = load_attributes environ whisper_available whisper_loads;
         loading = (if whisper_available
                    then Load_whisper_model
                           # (if whisper_cached then [] else [Fetch_whisper_checkpoint])
                    else []);
         (failed, made) = make_dirs mkdir_ok [''downloads'', ''processed'', ''uploads'']
     in case failed of
          Some e \<Rightarrow> (Inl e, loading @ made)
        | None \<Rightarrow>
            (case validate_credentials self of
               Inl e \<Rightarrow> (Inl e, loading @ made)
             | Inr _ \<Rightarrow> (Inr self, loading @ made)))"

text \<open>The keys of \<open>required_creds\<close>, in its order.\<close>

definition credential_names :: "string list" where
  "credential_names =
    [''TWITCH_CLIENT_ID'', ''TWITCH_CLIENT_SECRET'', ''TWITCH_STREAMER_NAME'',
     ''YOUTUBE_API_KEY'', ''YOUTUBE_CLIENT_ID'', ''YOUTUBE_CLIENT_SECRET'',
     ''YOUTUBE_REFRESH_TOKEN'']"


section \<open>Upload\<close>

record init_response =
  init_status :: int
  location :: "string option"

text \<open>
  The body of the PUT response: not JSON at all (\<open>json()\<close> raises), or a JSON object
  with the value of its \<open>id\<close> entry, if it has one.
\<close>

datatype put_body = Not_json | Json_object "string option"

record put_response =
  put_status :: int
  body :: put_body

text \<open>
  The outside world of one upload: the token \<open>get_fresh_access_token\<close> returns, the
  response to the initiation POST, whether the video file can be read, and the
  response to the PUT. \<open>None\<close> for a request means that it raised.
\<close>

record upload_world =
  access_token :: "string option"
  init_post :: "init_response option"
  file_readable :: bool
  video_put :: "put_response option"

definition init_url :: string where
  "init_url = ''https://www.googleapis.com/upload/youtube/v3/videos''"

definition upload_to_youtube_shorts ::
  "upload_world \<Rightarrow> string \<Rightarrow> string \<Rightarrow> string \<Rightarrow> string list \<Rightarrow> bool \<times> event list" where
  "upload_to_youtube_shorts w video_path title description tags =
    (if \<not> truthy (access_token w) then (False, [])
     else case init_post w of
       None \<Rightarrow> (False, [Http_post init_url])
     | Some init_response \<Rightarrow>
         if init_status init_response \<notin> {200, 201} then (False, [Http_post init_url])
         else case location init_response of
           None \<Rightarrow> (False, [Http_post init_url])
         | Some upload_url \<Rightarrow>
             if upload_url = [] then (False, [Http_post init_url])
             else if \<not> file_readable w then (False, [Http_post init_url, Open_read video_path])
             else case video_put w of
               None \<Rightarrow> (False, [Http_post init_url, Open_read video_path, Http_put upload_url])
             | Some upload_response \<Rightarrow>
                 (if put_status upload_response \<in> {200, 201}
                  then (case body upload_response of
                          Not_json \<Rightarrow> False
                        | Json_object video_id \<Rightarrow> truthy video_id)
                  else False,
                  [Http_post init_url, Open_read video_path, Http_put upload_url]))"


section \<open>Floating point\<close>

text \<open>
  Python's \<open>float\<close> is the IEEE 754 double. A finite double is carried as the rational
  number it denotes. A result is rounded to the nearest double, ties to the even
  significand: the significand has 53 bits, below \<open>2 powi - 1022\<close> the spacing stays
  \<open>2 powi - 1074\<close> (the subnormal numbers), and a rounded magnitude of \<open>2 powi 1024\<close> or
  more is an infinity. The sign of zero is not kept; no comparison and no sum of
  this program tells the two zeros apart.
\<close>

text \<open>\<open>exponent_of x\<close> is the integer \<open>e\<close> with \<open>2 powi e \<le> \<bar>x\<bar> < 2 powi (e + 1)\<close>.\<close>

definition exponent_of :: "rat \<Rightarrow> int" where
  "exponent_of x =
     (let (p, q) = quotient_of \<bar>x\<bar>;
          c = bitlen p - bitlen q
      in if \<bar>x\<bar> < 2 powi c then c - 1 else c)"

definition round_half_even :: "rat \<Rightarrow> int" where
  "round_half_even y =
     (let n = \<lfloor>y\<rfloor>; r = y - of_int n
      in if r < 1 / 2 then n
         else if r > 1 / 2 then n + 1
         else if even n then n else n + 1)"

definition quantum :: "rat \<Rightarrow> rat" where
  "quantum x = 2 powi (max (exponent_of x) (- 1022) - 52)"

definition round_finite :: "rat \<Rightarrow> rat" where
  "round_finite x =
     (if x = 0 then 0 else of_int (round_half_even (x / quantum x)) * quantum x)"

datatype double = Finite rat | Pos_inf | Neg_inf | NaN

definition to_double :: "rat \<Rightarrow> double" where
  "to_double x =
     (let r = round_finite x
      in if r \<noteq> 0 \<and> exponent_of r \<ge> 1024 then (if r > 0 then Pos_inf else Neg_inf)
         else Finite r)"

text \<open>Negation, sum, difference, division by two and comparison of doubles.\<close>

fun dneg :: "double \<Rightarrow> double" where
  "dneg (Finite x) = Finite (- x)"
| "dneg Pos_inf = Neg_inf"
| "dneg Neg_inf = Pos_inf"
| "dneg NaN = NaN"

fun dadd :: "double \<Rightarrow> double \<Rightarrow> double" where
  "dadd (Finite x) (Finite y) = to_double (x + y)"
| "dadd NaN _ = NaN"
| "dadd _ NaN = NaN"
| "dadd Pos_inf Neg_inf = NaN"
| "dadd Neg_inf Pos_inf = NaN"
| "dadd Pos_inf _ = Pos_inf"
| "dadd _ Pos_inf = Pos_inf"
| "dadd Neg_inf _ = Neg_inf"
| "dadd _ Neg_inf = Neg_inf"

definition dsub :: "double \<Rightarrow> double \<Rightarrow> double" where
  "dsub x y = dadd x (dneg y)"

fun dhalf :: "double \<Rightarrow> double" where
  "dhalf (Finite x) = to_double (x / 2)"
| "dhalf x = x"

fun dless :: "double \<Rightarrow> double \<Rightarrow> bool" where
  "dless (Finite x) (Finite y) = (x < y)"
| "dless NaN _ = False"
| "dless _ NaN = False"
| "dless _ Neg_inf = False"
| "dless Neg_inf _ = True"
| "dless Pos_inf _ = False"
| "dless _ Pos_inf = True"

text \<open>\<open>max(a, b)\<close>: the second argument replaces the first only if it is greater.\<close>

definition py_max :: "double \<Rightarrow> double \<Rightarrow> double" where
  "py_max a b = (if dless a b then b else a)"



section \<open>Trimming\<close>

text \<open>
  A clip object of the media library: the time of its source file that it shows at
  its own time 0, and its duration, in seconds. \<open>VideoFileClip\<close> opens a file;
  \<open>subclip\<close> is the library's (moviepy 1.x, which \<open>moviepy.editor\<close> belongs to): a
  negative time counts from the end of the clip, a start beyond the clip's
  duration raises \<open>ValueError\<close>, and the new duration is the difference of the two
  times. The audio track, which the library cuts in the same way, is taken to be
  as long as the video.
\<close>

record video =
  source_start :: double
  duration :: double

definition VideoFileClip :: "double \<Rightarrow> video" where
  "VideoFileClip file_duration = \<lparr>source_start = Finite 0, duration = file_duration\<rparr>"

definition subclip :: "video \<Rightarrow> double \<Rightarrow> double \<Rightarrow> error + video" where
  "subclip v t_start t_end =
     (let t_start = (if dless t_start (Finite 0) then dadd (duration v) t_start else t_start)
      in if dless (duration v) t_start then Inl ValueError
         else (let t_end = (if dless t_end (Finite 0) then dadd (duration v) t_end else t_end)
               in Inr \<lparr>source_start = dadd (source_start v) t_start,
                        duration = dsub t_end t_start\<rparr>))"

text \<open>
  \<open>opened\<close> is the duration of the input file, \<open>None\<close> when opening it raises;
  \<open>write_ok\<close> says whether \<open>write_videofile\<close> returned. The second component of the
  result is the clip that was written. \<open>max_duration\<close> is a double; the program
  passes the integer 40.
\<close>

record trim_world =
  opened :: "double option"
  write_ok :: bool

definition trim_video ::
  "trim_world \<Rightarrow> string \<Rightarrow> string \<Rightarrow> double \<Rightarrow> bool \<times> video option" where
  "trim_video w input_path output_path max_duration =
    (case opened w of
       None \<Rightarrow> (False, None)
     | Some file_duration \<Rightarrow>
         (let video = VideoFileClip file_duration
          in case (if dless max_duration (duration video)
                   then (let start_time =
                               py_max (Finite 0) (dhalf (dsub (duration video) max_duration));
                             end_time = dadd start_time max_duration
                         in subclip video start_time end_time)
                   else Inr video) of
               Inl e \<Rightarrow> (False, None)
             | Inr video \<Rightarrow> if write_ok w then (True, Some video) else (False, None)))"




section \<open>Download\<close>

text \<open>The local files that exist, with their sizes in bytes.\<close>

type_synonym filesystem = "string \<rightharpoonup> nat"

text \<open>
  \<open>download_url\<close> is what \<open>get_clip_download_url\<close> returns; \<open>get_response\<close> is the
  status of the GET and the number of bytes its body streams to the file, \<open>None\<close>
  when the request raises.
\<close>

record download_world =
  download_url :: "string option"
  get_response :: "(int \<times> nat) option"

definition download_clip ::
  "download_world \<Rightarrow> filesystem \<Rightarrow> string \<Rightarrow> string \<Rightarrow> bool \<times> filesystem" where
  "download_clip w files clip_url filename =
    (if \<not> truthy (download_url w) then (False, files)
     else case get_response w of
       None \<Rightarrow> (False, files)
     | Some (status_code, nbytes) \<Rightarrow>
         if status_code = 200
         then (let filepath = ''downloads/'' @ filename;
                   files = files(filepath \<mapsto> nbytes)
               in (case files filepath of Some n \<Rightarrow> n > 1000 | None \<Rightarrow> False, files))
         else (False, files))"


section \<open>The pipeline\<close>

text \<open>
  An element of the list \<open>get_twitch_clips\<close> returns: a JSON object, or a JSON value
  of another kind.
\<close>

datatype clip = Clip "string \<rightharpoonup> string" | Not_a_dict

text \<open>
  The outside world of one loop iteration. \<open>vertical\<close> is the size of the file
  \<open>create_vertical_video\<close> writes, \<open>None\<close> when it returns \<open>False\<close>; \<open>remove_ok\<close> says
  for which paths \<open>os.remove\<close> succeeds.
\<close>

record clip_world =
  download :: download_world
  transcription :: string
  vertical :: "nat option"
  trim :: trim_world
  trimmed_size :: nat
  title_draw :: nat
  upload :: upload_world
  remove_ok :: "string \<Rightarrow> bool"

text \<open>
  The state of the loop. \<open>reports\<close> has one entry for each iteration that ran: the
  events of that iteration. \<open>raised\<close> is the exception that left the loop, if any.
\<close>

record run_state =
  disk :: filesystem
  processed_count :: nat
  reports :: "event list list"
  raised :: "error option"

definition transcribe_audio :: "automation \<Rightarrow> clip_world \<Rightarrow> string \<Rightarrow> string \<times> event list" where
  "transcribe_audio self w video_path =
     (if \<not> whisper_model self then ([], [])
      else (transcription w, [Transcribe_audio video_path]))"

fun cleanup :: "(string \<Rightarrow> bool) \<Rightarrow> string list \<Rightarrow> filesystem \<Rightarrow> filesystem \<times> event list" where
  "cleanup removable [] files = (files, [])"
| "cleanup removable (path # paths) files =
     (if files path \<noteq> None
      then (let (files', events) =
                  cleanup removable paths (if removable path then files(path := None) else files)
            in (files', Os_remove path # events))
      else cleanup removable paths files)"

text \<open>
  The body of the \<open>for\<close> loop. Each \<open>continue\<close> ends the iteration where it stands.
  A missing key raises \<open>KeyError\<close>, and a missing streamer name \<open>AttributeError\<close> at
  the title; the handler logs them and continues. For a clip that is not an object
  the handler's own \<open>clip.get\<close> raises, and that exception leaves \<open>process_clips\<close>.
\<close>

definition process_clip :: "automation \<Rightarrow> clip_world \<Rightarrow> clip \<Rightarrow> run_state \<Rightarrow> run_state" where
  "process_clip self w clip st =
    (case clip of
       Not_a_dict \<Rightarrow> st\<lparr>reports := reports st @ [[]], raised := Some AttributeError\<rparr>
     | Clip d \<Rightarrow>
        (case (d ''id'', d ''title'', d ''url'') of
           (Some clip_id, Some clip_title, Some clip_url) \<Rightarrow>
            (let filename = ''twitch_clip_'' @ clip_id @ ''.mp4'';
                 (downloaded, files1) = download_clip (download w) (disk st) clip_url filename;
                 events1 = [Download_clip clip_url filename downloaded];
                 input_path = ''downloads/'' @ filename
             in if \<not> downloaded
                then st\<lparr>disk := files1, reports := reports st @ [events1]\<rparr>
                else if (case files1 input_path of None \<Rightarrow> True | Some n \<Rightarrow> n < 1000)
                then st\<lparr>disk := files1, reports := reports st @ [events1]\<rparr>
                else
                 (let (transcription, events2) = transcribe_audio self w input_path;
                      content_analysis = analyze_content transcription;
                      vertical_path = ''processed/vertical_'' @ filename;
                      files2 = (case vertical w of
                                  None \<Rightarrow> files1
                                | Some n \<Rightarrow> files1(vertical_path \<mapsto> n));
                      events3 = events1 @ events2
                        @ [Create_vertical_video input_path vertical_path (vertical w \<noteq> None)]
                  in if vertical w = None
                     then st\<lparr>disk := files2, reports := reports st @ [events3]\<rparr>
                     else
                      (let final_path = ''uploads/final_'' @ filename;
                           (trimmed, written) = trim_video (trim w) vertical_path final_path (Finite 40);
                           files3 = (if trimmed then files2(final_path \<mapsto> trimmed_size w)
                                     else files2);
                           events4 = events3 @ [Trim_video vertical_path final_path trimmed]
                       in if \<not> trimmed
                          then st\<lparr>disk := files3, reports := reports st @ [events4]\<rparr>
                          else
                           (case twitch_streamer self of
                              None \<Rightarrow> st\<lparr>disk := files3, reports := reports st @ [events4]\<rparr>
                            | Some streamer_name \<Rightarrow>
                               (let title = generate_engaging_title (title_draw w) clip_title
                                              content_analysis streamer_name;
                                    description =
                                      [CHR 0xF0, CHR 0x9F, CHR 0x94, CHR 0xA5] @ '' Epic ''
                                      @ streamer_name @ '' gaming moment!'' @ [CHR 10, CHR 10]
                                      @ [CHR 0xF0, CHR 0x9F, CHR 0x8E, CHR 0xAE]
                                      @ '' Follow for more amazing clips!'' @ [CHR 10, CHR 10];
                                    tags = [''shorts'', ''gaming'', str_lower streamer_name,
                                            ''viral'', ''epic'', ''twitch''];
                                    (uploaded, http) =
                                      upload_to_youtube_shorts (upload w) final_path title
                                        description tags;
                                    count = (if uploaded then processed_count st + 1
                                             else processed_count st);
                                    (files4, removals) =
                                      cleanup (remove_ok w) [input_path, vertical_path, final_path]
                                        files3
                                in st\<lparr>disk := files4, processed_count := count,
                                      reports := reports st
                                        @ [events4
                                           @ [Upload_to_youtube_shorts final_path title uploaded]
                                           @ removals @ [Sleep 30]]\<rparr>)))))
         | _ \<Rightarrow> st\<lparr>reports := reports st @ [[]]\<rparr>))"

text \<open>
  The \<open>for\<close> loop, with the \<open>break\<close> at its head. \<open>worlds i\<close> is the outside world of
  iteration \<open>i\<close>.
\<close>

fun clips_loop ::
  "automation \<Rightarrow> (nat \<Rightarrow> clip_world) \<Rightarrow> nat \<Rightarrow> nat \<Rightarrow> clip list \<Rightarrow> run_state \<Rightarrow> run_state" where
  "clips_loop self worlds max_uploads i [] st = st"
| "clips_loop self worlds max_uploads i (clip # rest) st =
     (if processed_count st \<ge> max_uploads then st
      else (let st' = process_clip self (worlds i) clip st
            in if raised st' \<noteq> None then st'
               else clips_loop self worlds max_uploads (Suc i) rest st'))"

record world =
  environ :: "string \<rightharpoonup> string"
  whisper_available :: bool
  whisper_cached :: bool
  whisper_loads :: bool
  mkdir_ok :: "string \<Rightarrow> bool"
  twitch_clips :: "clip list"
  clip_worlds :: "nat \<Rightarrow> clip_world"
  initial_files :: filesystem

text \<open>
  \<open>process_clips\<close> returns the number of uploads, or leaves with an exception; the
  final state is returned with it.
\<close>

definition process_clips :: "automation \<Rightarrow> world \<Rightarrow> (error + nat) \<times> run_state" where
  "process_clips self w =
    (let clips = twitch_clips w;
         st = \<lparr>disk = initial_files w, processed_count = 0, reports = [], raised = None\<rparr>
     in if clips = [] then (Inr 0, st)
        else (let max_uploads = 3;
                  st = clips_loop self (clip_worlds w) max_uploads 0
                         (take (max_uploads * 2) clips) st
              in (case raised st of
                    Some e \<Rightarrow> Inl e
                  | None \<Rightarrow> Inr (processed_count st), st)))"


section \<open>The entry point\<close>

text \<open>\<open>main\<close> returns 1 when the constructor or \<open>process_clips\<close> raised, and 0 otherwise.\<close>

definition main :: "world \<Rightarrow> int \<times> event list" where
  "main w =
    (case init (environ w) (whisper_available w) (whisper_cached w) (whisper_loads w)
            (mkdir_ok w) of
       (Inl e, events) \<Rightarrow> (1, events)
     | (Inr automation, events) \<Rightarrow>
         (case process_clips automation w of
            (result, st) \<Rightarrow>
              (case result of Inl e \<Rightarrow> 1 | Inr n \<Rightarrow> 0,
               events @ Get_twitch_clips (twitch_streamer automation) # concat (reports st))))"

text \<open>
  Running the module: \<open>if __name__ == "__main__": main()\<close>. The call is an
  expression statement, so what \<open>main\<close> returns is dropped; \<open>main\<close> catches every
  \<open>Exception\<close>, the module body ends normally and the interpreter exits with status 0.
\<close>

definition run_module :: "world \<Rightarrow> int \<times> event list" where
  "run_module w = (case main w of (returned, events) \<Rightarrow> (0, events))"


section \<open>Example worlds\<close>

definition env_ok :: "string \<rightharpoonup> string" where
  "env_ok = [''TWITCH_CLIENT_ID'' \<mapsto> ''id'', ''TWITCH_CLIENT_SECRET'' \<mapsto> ''secret'',
     ''TWITCH_STREAMER_NAME'' \<mapsto> ''Ninja'', ''YOUTUBE_API_KEY'' \<mapsto> ''key'',
     ''YOUTUBE_CLIENT_ID'' \<mapsto> ''yid'', ''YOUTUBE_CLIENT_SECRET'' \<mapsto> ''ysecret'',
     ''YOUTUBE_REFRESH_TOKEN'' \<mapsto> ''refresh'']"

text \<open>\<open>TWITCH_CLIENT_ID\<close> is unset and \<open>YOUTUBE_API_KEY\<close> is set to the empty string.\<close>

definition env_missing :: "string \<rightharpoonup> string" where
  "env_missing = env_ok(''TWITCH_CLIENT_ID'' := None, ''YOUTUBE_API_KEY'' \<mapsto> [])"

text \<open>
  Uploads: one that succeeds, one whose initiation response has no \<open>Location\<close> header,
  and one whose PUT response has no \<open>id\<close>.
\<close>

definition upload_ok :: upload_world where
  "upload_ok = \<lparr>access_token = Some ''token'',
     init_post = Some \<lparr>init_status = 200, location = Some ''https://upload.example/session''\<rparr>,
     file_readable = True,
     video_put = Some \<lparr>put_status = 200, body = Json_object (Some ''abc123'')\<rparr>\<rparr>"

definition upload_no_location :: upload_world where
  "upload_no_location = upload_ok\<lparr>init_post := Some \<lparr>init_status = 200, location = None\<rparr>\<rparr>"

definition upload_no_id :: upload_world where
  "upload_no_id = upload_ok\<lparr>video_put := Some \<lparr>put_status = 200, body = Json_object None\<rparr>\<rparr>"

text \<open>Clips, and the outside world of an iteration in which every stage succeeds.\<close>

definition twitch_clip :: "string \<Rightarrow> clip" where
  "twitch_clip ident =
     Clip [''id'' \<mapsto> ident, ''title'' \<mapsto> ''Clip '' @ ident,
           ''url'' \<mapsto> ''https://clips.twitch.tv/'' @ ident]"

definition clip_world_ok :: clip_world where
  "clip_world_ok =
     \<lparr>download = \<lparr>download_url = Some ''https://cdn.example/clip.mp4'',
                   get_response = Some (200, 5000)\<rparr>,
      transcription = ''omg'',
      vertical = Some 4000,
      trim = \<lparr>opened = Some (Finite 50), write_ok = True\<rparr>,
      trimmed_size = 3000,
      title_draw = 1,
      upload = upload_ok,
      remove_ok = (\<lambda>path. True)\<rparr>"

definition clip_world_download_fails :: clip_world where
  "clip_world_download_fails =
     clip_world_ok\<lparr>download := \<lparr>download_url = None, get_response = None\<rparr>\<rparr>"

definition clip_world_vertical_fails :: clip_world where
  "clip_world_vertical_fails = clip_world_ok\<lparr>vertical := None\<rparr>"

definition clip_world_upload_fails :: clip_world where
  "clip_world_upload_fails = clip_world_ok\<lparr>upload := upload_no_location\<rparr>"

text \<open>
  Runs: with two credentials missing; with no clips; with a clip that is not an
  object; with one clip whose reformatting fails; with one clip whose upload fails;
  and with eight clips of which the first fails to download and the second fails to
  reformat.
\<close>

definition world_missing :: world where
  "world_missing = \<lparr>environ = env_missing, whisper_available = True, whisper_cached = True,
     whisper_loads = True, mkdir_ok = (\<lambda>path. True),
     twitch_clips = [twitch_clip ''a''], clip_worlds = (\<lambda>i. clip_world_ok),
     initial_files = Map.empty\<rparr>"

text \<open>
  The same run with the Whisper checkpoint not yet in the cache, and with a
  regular file standing where the directory \<open>downloads\<close> should be.
\<close>

definition world_missing_uncached :: world where
  "world_missing_uncached = world_missing\<lparr>whisper_cached := False\<rparr>"

definition world_missing_no_mkdir :: world where
  "world_missing_no_mkdir = world_missing\<lparr>mkdir_ok := (\<lambda>path. path \<noteq> ''downloads'')\<rparr>"

definition world_no_clips :: world where
  "world_no_clips = world_missing\<lparr>environ := env_ok, twitch_clips := []\<rparr>"

definition world_not_a_dict :: world where
  "world_not_a_dict = world_missing\<lparr>environ := env_ok, twitch_clips := [Not_a_dict]\<rparr>"

definition world_vertical_fails :: world where
  "world_vertical_fails =
     world_missing\<lparr>environ := env_ok, clip_worlds := (\<lambda>i. clip_world_vertical_fails)\<rparr>"

definition world_upload_fails :: world where
  "world_upload_fails =
     world_missing\<lparr>environ := env_ok, clip_worlds := (\<lambda>i. clip_world_upload_fails)\<rparr>"

definition world_mixed :: world where
  "world_mixed =
     world_missing\<lparr>environ := env_ok,
       twitch_clips := map twitch_clip [''a'', ''b'', ''c'', ''d'', ''e'', ''f'', ''g'', ''h''],
       clip_worlds := (\<lambda>i. if i = 0 then clip_world_download_fails
                            else if i = 1 then clip_world_vertical_fails else clip_world_ok)\<rparr>"


definition automation_ok :: automation where
  "automation_ok = load_attributes env_ok True True"


section \<open>Reading the reports\<close>

text \<open>
  The stages after the download, the uploads that succeeded, and the removals of
  the cleanup, as they appear among the events.
\<close>

fun later_stage :: "event \<Rightarrow> bool" where
  "later_stage (Create_vertical_video _ _ _) = True"
| "later_stage (Trim_video _ _ _) = True"
| "later_stage (Upload_to_youtube_shorts _ _ _) = True"
| "later_stage _ = False"

fun upload_succeeded :: "event \<Rightarrow> bool" where
  "upload_succeeded (Upload_to_youtube_shorts _ _ uploaded) = uploaded"
| "upload_succeeded _ = False"

definition uploads_succeeded :: "event list \<Rightarrow> nat" where
  "uploads_succeeded events = length (filter upload_succeeded events)"

fun is_removal :: "event \<Rightarrow> bool" where
  "is_removal (Os_remove _) = True"
| "is_removal _ = False"

text \<open>
  What holds of the loop state before and after every iteration: the counter is the
  number of uploads that succeeded, every iteration so far began below the cap, and
  in every report at most one upload succeeded and a failed download stands alone.
\<close>

definition loop_invariant :: "nat \<Rightarrow> run_state \<Rightarrow> bool" where
  "loop_invariant max_uploads st \<longleftrightarrow>
     processed_count st = uploads_succeeded (concat (reports st))
     \<and> (\<forall>k<length (reports st). uploads_succeeded (concat (take k (reports st))) < max_uploads)
     \<and> (\<forall>report\<in>set (reports st).
           uploads_succeeded report \<le> 1
           \<and> (\<forall>url filename. Download_clip url filename False \<in> set report
                 \<longrightarrow> report = [Download_clip url filename False]))"


section \<open>Properties of the string operations\<close>

subsection \<open>What \<open>str.count\<close> counts\<close>

text \<open>
  The scan of \<open>count_scan\<close> finds a largest set of pairwise non-overlapping
  occurrences: shifting a set of occurrences along the string keeps it one, the scan
  reaches its own count, and no set of non-overlapping occurrences is larger.
\<close>

lemma occurs_at_drop:
  assumes "sub \<noteq> []"
  shows "occurs_at sub (drop n s) i \<longleftrightarrow> occurs_at sub s (i + n)"
proof -
  have "0 < length sub" using assms by simp
  then have "i + length sub \<le> length s - n \<longleftrightarrow> i + n + length sub \<le> length s"
    by arith
  then show ?thesis
    by (simp add: occurs_at_def add.commute)
qed

lemma non_overlapping_finite:
  assumes "non_overlapping sub s P"
  shows "finite P"
proof -
  have "P \<subseteq> {..length s}"
    using assms by (auto simp: non_overlapping_def occurs_at_def)
  then show ?thesis by (rule finite_subset) simp
qed

lemma non_overlapping_shift_up:
  assumes "sub \<noteq> []" and "non_overlapping sub (drop n s) P"
  shows "non_overlapping sub s ((\<lambda>i. i + n) ` P)"
  using assms by (auto simp: non_overlapping_def occurs_at_drop)

lemma non_overlapping_shift_down:
  assumes "sub \<noteq> []" and "non_overlapping sub s P" and "\<forall>i\<in>P. n \<le> i"
  shows "non_overlapping sub (drop n s) ((\<lambda>i. i - n) ` P)"
  using assms by (auto simp: non_overlapping_def occurs_at_drop) fastforce

lemma occurs_at_0: "occurs_at sub s 0 \<longleftrightarrow> take (length sub) s = sub"
proof
  assume "take (length sub) s = sub"
  then have "length (take (length sub) s) = length sub" by simp
  then have "length sub \<le> length s" by simp
  with \<open>take (length sub) s = sub\<close> show "occurs_at sub s 0" by (simp add: occurs_at_def)
qed (simp add: occurs_at_def)

lemma count_scan_achieved:
  assumes "sub \<noteq> []"
  shows "\<exists>P. non_overlapping sub s P \<and> card P = count_scan sub s"
  using assms
proof (induction sub s rule: count_scan.induct)
  case (1 sub)
  have "non_overlapping sub [] {}" by (simp add: non_overlapping_def)
  then show ?case by force
next
  case (2 sub c cs)
  let ?s = "c # cs"
  show ?case
  proof (cases "take (length sub) ?s = sub")
    case True
    let ?n = "length sub"
    have rest: "drop (?n - 1) cs = drop ?n ?s" using 2(3) by (cases sub) auto
    from 2(1)[OF True 2(3)] obtain P' where
      P': "non_overlapping sub (drop ?n ?s) P'" "card P' = count_scan sub (drop ?n ?s)"
      using rest by auto
    let ?P = "insert 0 ((\<lambda>i. i + ?n) ` P')"
    have up: "non_overlapping sub ?s ((\<lambda>i. i + ?n) ` P')"
      using non_overlapping_shift_up[OF 2(3) P'(1)] .
    have occ0: "occurs_at sub ?s 0" using True by (simp add: occurs_at_0)
    have "non_overlapping sub ?s ?P"
      using up occ0 unfolding non_overlapping_def by auto
    moreover have "finite P'" using P'(1) by (rule non_overlapping_finite)
    then have "card ?P = Suc (card P')"
      using 2(3) by (subst card_insert_disjoint) (auto simp: card_image)
    ultimately show ?thesis using True P'(2) rest by (intro exI[of _ ?P]) simp
  next
    case False
    from 2(2)[OF False 2(3)] obtain P' where
      P': "non_overlapping sub (drop 1 ?s) P'" "card P' = count_scan sub cs"
      by auto
    have "non_overlapping sub ?s ((\<lambda>i. i + 1) ` P')"
      using non_overlapping_shift_up[OF 2(3) P'(1)] .
    moreover have "card ((\<lambda>i. i + 1) ` P') = card P'" by (simp add: card_image)
    ultimately show ?thesis using False P'(2) by (intro exI[of _ "(\<lambda>i. i + 1) ` P'"]) simp
  qed
qed

lemma count_scan_bound:
  assumes "sub \<noteq> []" and "non_overlapping sub s P"
  shows "card P \<le> count_scan sub s"
  using assms
proof (induction sub s arbitrary: P rule: count_scan.induct)
  case (1 sub)
  then have "P = {}" by (auto simp: non_overlapping_def occurs_at_def)
  then show ?case by simp
next
  case (2 sub c cs)
  let ?s = "c # cs"
  let ?n = "length sub"
  have fin: "finite P" using 2(4) by (rule non_overlapping_finite)
  show ?case
  proof (cases "take ?n ?s = sub")
    case True
    have rest: "drop (?n - 1) cs = drop ?n ?s" using 2(3) by (cases sub) auto
    let ?Q = "{i \<in> P. ?n \<le> i}"
    let ?R = "{i \<in> P. i < ?n}"
    have Q: "non_overlapping sub ?s ?Q" using 2(4) by (auto simp: non_overlapping_def)
    have "non_overlapping sub (drop ?n ?s) ((\<lambda>i. i - ?n) ` ?Q)"
      by (rule non_overlapping_shift_down[OF 2(3) Q]) simp
    then have "card ((\<lambda>i. i - ?n) ` ?Q) \<le> count_scan sub (drop (?n - 1) cs)"
      using 2(1)[OF True 2(3)] rest by simp
    moreover have "inj_on (\<lambda>i. i - ?n) ?Q" by (auto simp: inj_on_def)
    ultimately have cQ: "card ?Q \<le> count_scan sub (drop (?n - 1) cs)"
      by (simp add: card_image)
    have sep: "i + ?n \<le> j" if "i \<in> P" "j \<in> P" "i < j" for i j
      using 2(4) that by (simp add: non_overlapping_def)
    have "i = j" if "i \<in> ?R" "j \<in> ?R" for i j
    proof (rule ccontr)
      assume "i \<noteq> j"
      then consider "i < j" | "j < i" by arith
      then show False
      proof cases
        case 1
        with sep[of i j] that show False by simp
      next
        case 2
        with sep[of j i] that show False by simp
      qed
    qed
    then have uniq: "\<forall>a\<in>?R. \<forall>b\<in>?R. a = b" by blast
    have finR: "finite ?R" using fin by simp
    have cR: "card ?R \<le> Suc 0"
      unfolding card_le_Suc0_iff_eq[OF finR] by (rule uniq)
    have "card P = card (?R \<union> ?Q)" by (rule arg_cong[where f = card]) auto
    also have "\<dots> \<le> card ?R + card ?Q" by (rule card_Un_le)
    finally have "card P \<le> card ?R + card ?Q" .
    with cR cQ have "card P \<le> Suc (count_scan sub (drop (?n - 1) cs))" by linarith
    then show ?thesis using True by simp
  next
    case False
    then have "\<not> occurs_at sub ?s 0" by (simp add: occurs_at_0)
    then have "0 \<notin> P" using 2(4) by (auto simp: non_overlapping_def)
    then have ge: "\<forall>i\<in>P. 1 \<le> i" by (metis One_nat_def Suc_leI gr0I)
    have "non_overlapping sub (drop 1 ?s) ((\<lambda>i. i - 1) ` P)"
      by (rule non_overlapping_shift_down[OF 2(3) 2(4) ge])
    then have "card ((\<lambda>i. i - 1) ` P) \<le> count_scan sub cs"
      using 2(2)[OF False 2(3)] by simp
    moreover have "inj_on (\<lambda>i. i - 1) P"
    proof (rule inj_onI)
      fix x y assume xy: "x \<in> P" "y \<in> P" "x - 1 = y - 1"
      then have "1 \<le> x" "1 \<le> y" using ge by auto
      with xy(3) show "x = y" by arith
    qed
    ultimately show ?thesis using False by (simp add: card_image)
  qed
qed

lemma count_scan_max:
  assumes "sub \<noteq> []"
  shows "count_scan sub s = nonoverlapping_occurrences sub s"
proof -
  let ?A = "card ` {P. non_overlapping sub s P}"
  have "{P. non_overlapping sub s P} \<subseteq> Pow {..length s}"
    by (auto simp: non_overlapping_def occurs_at_def)
  then have "finite {P. non_overlapping sub s P}" by (rule finite_subset) simp
  then have "finite ?A" by simp
  moreover have "\<forall>y\<in>?A. y \<le> count_scan sub s"
    using count_scan_bound[OF assms] by auto
  moreover have "count_scan sub s \<in> ?A"
    using count_scan_achieved[OF assms, of s] by force
  ultimately have "Max ?A = count_scan sub s" by (intro Max_eqI) auto
  then show ?thesis by (simp add: nonoverlapping_occurrences_def)
qed


lemma str_count_nonoverlapping:
  "sub \<noteq> [] \<Longrightarrow> str_count s sub = nonoverlapping_occurrences sub s"
  by (simp add: str_count_def count_scan_max)


lemma count_scan_overlapping_example:
  "count_scan ''wow'' ''wowow'' = 1 \<and> overlapping_occurrences ''wow'' ''wowow'' = 2"
  by code_simp

subsection \<open>Splitting and joining\<close>

lemma str_split_empty: "str_split [] sep = [[]]"
  by (simp add: str_split_def)

lemma str_join_contains:
  "x \<in> set xs \<Longrightarrow> \<exists>before after. str_join sep xs = before @ x @ after"
proof (induction sep xs rule: str_join.induct)
  case (1 sep)
  then show ?case by simp
next
  case (2 sep y)
  then have "str_join sep [y] = [] @ x @ []" by simp
  then show ?case by blast
next
  case (3 sep y z zs)
  show ?case
  proof (cases "x = y")
    case True
    then have "str_join sep (y # z # zs) = [] @ x @ (sep @ str_join sep (z # zs))" by simp
    then show ?thesis by blast
  next
    case False
    with 3 obtain before after where "str_join sep (z # zs) = before @ x @ after" by auto
    then have "str_join sep (y # z # zs) = (y @ sep @ before) @ x @ after" by simp
    then show ?thesis by blast
  qed
qed


section \<open>Properties of the content analysis\<close>

lemma categories_analyze_content:
  "categories (analyze_content t) =
     map (\<lambda>(category, keywords). (category, sum_list (map (str_count (str_lower t)) keywords)))
       highlight_keywords"
  by (simp add: analyze_content_def highlight_keywords_def Let_def split: list.splits)

lemma total_score_analyze_content:
  "total_score (analyze_content t) = sum_list (map snd (categories (analyze_content t)))"
  by (simp add: analyze_content_def highlight_keywords_def Let_def split: list.splits)

lemma keywords_nonempty:
  "(category, keywords) \<in> set highlight_keywords \<Longrightarrow> kw \<in> set keywords \<Longrightarrow> kw \<noteq> []"
  by (auto simp: highlight_keywords_def)


text \<open>
  C1, as amended. For every transcript, the score of each of the four categories
  equals the sum, over the category's keyword list, of the number of non-overlapping
  occurrences of the keyword in the lower-cased transcript (the size of a largest set
  of occurrences no two of which overlap, which is what \<open>str.count\<close> returns), and
  \<open>total_score\<close> equals the sum of the four category scores.
\<close>

theorem analyze_content_scores:
  "categories (analyze_content t) =
     map (\<lambda>(category, keywords).
            (category, sum_list (map (\<lambda>kw. nonoverlapping_occurrences kw (str_lower t)) keywords)))
       highlight_keywords
   \<and> total_score (analyze_content t) = sum_list (map snd (categories (analyze_content t)))"
proof -
  let ?py = "\<lambda>(category, keywords).
               (category, sum_list (map (str_count (str_lower t)) keywords))"
  let ?spec = "\<lambda>(category, keywords).
               (category, sum_list (map (\<lambda>kw. nonoverlapping_occurrences kw (str_lower t)) keywords))"
  have "map ?py highlight_keywords = map ?spec highlight_keywords"
  proof (rule map_cong[OF refl])
    fix entry assume entry: "entry \<in> set highlight_keywords"
    obtain category kws where split: "entry = (category, kws)" by (cases entry)
    have "map (str_count (str_lower t)) kws
            = map (\<lambda>kw. nonoverlapping_occurrences kw (str_lower t)) kws"
    proof (rule map_cong[OF refl])
      fix kw assume "kw \<in> set kws"
      with entry split have "kw \<noteq> []" by (auto dest: keywords_nonempty)
      then show "str_count (str_lower t) kw = nonoverlapping_occurrences kw (str_lower t)"
        by (rule str_count_nonoverlapping)
    qed
    then have "sum_list (map (str_count (str_lower t)) kws)
            = sum_list (map (\<lambda>kw. nonoverlapping_occurrences kw (str_lower t)) kws)"
      by (rule arg_cong)
    then show "?py entry = ?spec entry" by (simp add: split)
  qed
  then show ?thesis
    by (simp add: categories_analyze_content total_score_analyze_content)
qed


text \<open>
  At the transcript \<open>WoWow talent\<close> the excitement score is 1, although \<open>wow\<close> starts
  at two positions of \<open>wowow\<close>.
\<close>

theorem analyze_content_scores_witness:
  "map (\<lambda>(category, keywords).
          (category, sum_list (map (\<lambda>kw. nonoverlapping_occurrences kw (str_lower ''WoWow talent'')) keywords)))
     highlight_keywords
   = [(''excitement'', 1), (''action'', 0), (''reaction'', 0), (''skill'', 1)]"
proof -
  have "categories (analyze_content ''WoWow talent'')
          = [(''excitement'', 1), (''action'', 0), (''reaction'', 0), (''skill'', 1)]"
    by code_simp
  with analyze_content_scores[of "''WoWow talent''"] show ?thesis by simp
qed


text \<open>
  C1 as stated, with overlapping occurrences counted, fails: in \<open>wowow\<close> the keyword
  \<open>wow\<close> starts at positions 0 and 2, so the overlapping count is 2, and the
  excitement score is 1.
\<close>

theorem analyze_content_overlapping_counterexample:
  "categories (analyze_content ''wowow'')
     \<noteq> map (\<lambda>(category, keywords).
              (category, sum_list (map (\<lambda>kw. overlapping_occurrences kw (str_lower ''wowow'')) keywords)))
         highlight_keywords
   \<and> map_of (categories (analyze_content ''wowow'')) ''excitement'' = Some 1
   \<and> sum_list (map (\<lambda>kw. overlapping_occurrences kw (str_lower ''wowow''))
        [''wow'', ''amazing'', ''incredible'', ''perfect'', ''clutch'', ''insane'', ''crazy'']) = 2"
  by code_simp


subsection \<open>The dominant emotion\<close>

lemma max_by_key_first_max:
  "\<exists>pre post. b # xs = pre @ max_by_key key b xs # post
      \<and> (\<forall>y\<in>set pre. key y < key (max_by_key key b xs))
      \<and> (\<forall>y\<in>set post. key y \<le> key (max_by_key key b xs))"
proof (induction xs arbitrary: b)
  case Nil
  have "[b] = [] @ b # []" by simp
  then show ?case by fastforce
next
  case (Cons x xs)
  define b' where "b' = (if key x > key b then x else b)"
  define m where "m = max_by_key key b' xs"
  from Cons.IH[of b'] obtain pre post where
    dec: "b' # xs = pre @ m # post" and
    lo: "\<forall>y\<in>set pre. key y < key m" and
    hi: "\<forall>y\<in>set post. key y \<le> key m"
    unfolding m_def by blast
  have m: "max_by_key key b (x # xs) = m" by (simp add: m_def b'_def)
  have "\<exists>pre post. b # x # xs = pre @ m # post
      \<and> (\<forall>y\<in>set pre. key y < key m) \<and> (\<forall>y\<in>set post. key y \<le> key m)"
  proof (cases "key x > key b")
    case True
    then have dec': "x # xs = pre @ m # post" using dec by (simp add: b'_def)
    have "key x \<le> key m"
    proof (cases pre)
      case Nil
      with dec' show ?thesis by simp
    next
      case (Cons p ps)
      with dec' have "x \<in> set pre" by simp
      with lo show ?thesis by (simp add: less_imp_le)
    qed
    with True have "key b < key m" by simp
    with lo have "\<forall>y\<in>set (b # pre). key y < key m" by simp
    moreover have "b # x # xs = (b # pre) @ m # post" using dec' by simp
    ultimately show ?thesis using hi by blast
  next
    case False
    then have dec': "b # xs = pre @ m # post" using dec by (simp add: b'_def)
    show ?thesis
    proof (cases pre)
      case Nil
      with dec' have mb: "m = b" and "post = xs" by simp_all
      with False hi have "\<forall>y\<in>set (x # xs). key y \<le> key m" by auto
      moreover have "b # x # xs = [] @ m # (x # xs)" using mb by simp
      moreover have "\<forall>y\<in>set ([] :: 'a list). key y < key m" by simp
      ultimately show ?thesis by blast
    next
      case (Cons p ps)
      with dec' have p: "p = b" and xs: "xs = ps @ m # post" by simp_all
      from lo Cons p have "key b < key m" by simp
      with False have "key x < key m" by simp
      with lo Cons p have "\<forall>y\<in>set (b # x # ps). key y < key m" by simp
      moreover have "b # x # xs = (b # x # ps) @ m # post" using xs by simp
      ultimately show ?thesis using hi by blast
    qed
  qed
  then show ?case unfolding m .
qed

lemma category_names:
  "map fst (categories (analyze_content t)) = [''excitement'', ''action'', ''reaction'', ''skill'']"
  by (simp add: categories_analyze_content highlight_keywords_def)

lemma dominant_emotion_analyze_content:
  "\<exists>item items. categories (analyze_content t) = item # items
     \<and> dominant_emotion (analyze_content t) =
         (if snd (max_by_key snd item items) > 0 then fst (max_by_key snd item items)
          else ''neutral'')"
  by (simp add: analyze_content_def highlight_keywords_def Let_def)


text \<open>
  C8. The empty transcript has all four scores zero and the dominant emotion
  \<open>neutral\<close>. For every transcript the categories are listed in the order excitement,
  action, reaction, skill; the dominant emotion is read from an entry \<open>top\<close> of that
  list whose score is greater than the score of every earlier entry and at least the
  score of every later one (the first entry with the highest score): it is the
  category of \<open>top\<close> when that score is positive, and \<open>neutral\<close> otherwise. It is
  \<open>neutral\<close> exactly when every score is zero.
\<close>

theorem analyze_content_dominant:
  "analyze_content '''' =
     \<lparr>total_score = 0,
      categories = [(''excitement'', 0), (''action'', 0), (''reaction'', 0), (''skill'', 0)],
      dominant_emotion = ''neutral''\<rparr>
   \<and> map fst (categories (analyze_content t)) = [''excitement'', ''action'', ''reaction'', ''skill'']
   \<and> (\<exists>earlier top later.
         categories (analyze_content t) = earlier @ top # later
         \<and> (\<forall>c\<in>set earlier. snd c < snd top)
         \<and> (\<forall>c\<in>set later. snd c \<le> snd top)
         \<and> dominant_emotion (analyze_content t) = (if snd top > 0 then fst top else ''neutral''))
   \<and> ((\<forall>c\<in>set (categories (analyze_content t)). snd c = 0)
         \<longleftrightarrow> dominant_emotion (analyze_content t) = ''neutral'')"
proof -
  have empty: "analyze_content '''' =
     \<lparr>total_score = 0,
      categories = [(''excitement'', 0), (''action'', 0), (''reaction'', 0), (''skill'', 0)],
      dominant_emotion = ''neutral''\<rparr>"
    by code_simp
  from dominant_emotion_analyze_content[of t] obtain item items where
    cats: "categories (analyze_content t) = item # items" and
    dom: "dominant_emotion (analyze_content t) =
         (if snd (max_by_key snd item items) > 0 then fst (max_by_key snd item items)
          else ''neutral'')"
    by blast
  define top where "top = max_by_key snd item items"
  from max_by_key_first_max[of item items snd] obtain earlier later where
    dec: "item # items = earlier @ top # later" and
    lo: "\<forall>c\<in>set earlier. snd c < snd top" and
    hi: "\<forall>c\<in>set later. snd c \<le> snd top"
    unfolding top_def by blast
  have dom': "dominant_emotion (analyze_content t) = (if snd top > 0 then fst top else ''neutral'')"
    using dom by (simp add: top_def)
  have ex: "\<exists>earlier top later.
         categories (analyze_content t) = earlier @ top # later
         \<and> (\<forall>c\<in>set earlier. snd c < snd top)
         \<and> (\<forall>c\<in>set later. snd c \<le> snd top)
         \<and> dominant_emotion (analyze_content t) = (if snd top > 0 then fst top else ''neutral'')"
    using cats dec lo hi dom' by metis
  have "fst top \<in> set (map fst (categories (analyze_content t)))"
    using cats dec by simp
  then have name: "fst top \<noteq> ''neutral''"
    by (auto simp: category_names)
  have zero: "(\<forall>c\<in>set (categories (analyze_content t)). snd c = 0) \<longleftrightarrow> snd top = 0"
  proof
    assume "\<forall>c\<in>set (categories (analyze_content t)). snd c = 0"
    then show "snd top = 0" using cats dec by simp
  next
    assume "snd top = 0"
    with lo hi show "\<forall>c\<in>set (categories (analyze_content t)). snd c = 0"
      using cats dec by auto
  qed
  have iff: "(\<forall>c\<in>set (categories (analyze_content t)). snd c = 0)
         \<longleftrightarrow> dominant_emotion (analyze_content t) = ''neutral''"
    using zero dom' name by auto
  show ?thesis using empty category_names ex iff by blast
qed


text \<open>
  At \<open>OMG what a kill\<close> action and reaction tie with score 1, and the earlier of the
  two, action, is dominant.
\<close>

theorem analyze_content_dominant_witness:
  "categories (analyze_content ''OMG what a kill'') =
     [(''excitement'', 0), (''action'', 1), (''reaction'', 1), (''skill'', 0)]
   \<and> dominant_emotion (analyze_content ''OMG what a kill'') = ''action''
   \<and> (\<exists>c\<in>set (categories (analyze_content ''OMG what a kill'')). snd c \<noteq> 0)"
proof -
  have cats: "categories (analyze_content ''OMG what a kill'') =
     [(''excitement'', 0), (''action'', 1), (''reaction'', 1), (''skill'', 0)]"
    by code_simp
  have dom: "dominant_emotion (analyze_content ''OMG what a kill'') = ''action''"
    by code_simp
  from analyze_content_dominant[of "''OMG what a kill''"]
  have "(\<forall>c\<in>set (categories (analyze_content ''OMG what a kill'')). snd c = 0)
         \<longleftrightarrow> dominant_emotion (analyze_content ''OMG what a kill'') = ''neutral''"
    by blast
  with dom have "\<exists>c\<in>set (categories (analyze_content ''OMG what a kill'')). snd c \<noteq> 0"
    by auto
  with cats dom show ?thesis by blast
qed


section \<open>Properties of the title generation\<close>

lemma template_names:
  "map fst (templates streamer_name) = [''excitement'', ''action'', ''skill'', ''neutral'']"
  by (simp add: templates_def)

lemma neutral_titles_length: "length (neutral_titles streamer_name) = 3"
  by (simp add: neutral_titles_def)


text \<open>
  C9. The template mapping has the keys excitement, action, skill and neutral, and
  none for reaction. For an analysis whose dominant emotion is \<open>reaction\<close> the list
  drawn from is the neutral one, and for every draw the title is the one the same
  draw gives for a neutral analysis: the entry of the neutral list at the drawn index.
\<close>

theorem reaction_uses_neutral_titles:
  assumes "dominant_emotion content_analysis = ''reaction''"
  shows "map_of (templates streamer_name) ''reaction'' = None
    \<and> map fst (templates streamer_name) = [''excitement'', ''action'', ''skill'', ''neutral'']
    \<and> selected_titles streamer_name (dominant_emotion content_analysis)
         = neutral_titles streamer_name
    \<and> generate_engaging_title draw clip_title content_analysis streamer_name
         = neutral_titles streamer_name ! (draw mod 3)
    \<and> generate_engaging_title draw clip_title content_analysis streamer_name
         = generate_engaging_title draw clip_title
             (content_analysis\<lparr>dominant_emotion := ''neutral''\<rparr>) streamer_name"
proof -
  have none: "map_of (templates streamer_name) ''reaction'' = None"
    by (simp add: templates_def)
  have neutral: "map_of (templates streamer_name) ''neutral'' = Some (neutral_titles streamer_name)"
    by (simp add: templates_def)
  have sel: "selected_titles streamer_name ''reaction'' = neutral_titles streamer_name"
    by (simp add: selected_titles_def none)
  have sel': "selected_titles streamer_name ''neutral'' = neutral_titles streamer_name"
    by (simp add: selected_titles_def neutral)
  show ?thesis
    using assms none sel sel'
    by (simp add: generate_engaging_title_def random_choice_def template_names
        neutral_titles_length)
qed


text \<open>The transcript \<open>omg\<close> has the dominant emotion reaction; draw 4 picks index 1.\<close>

theorem reaction_uses_neutral_titles_witness:
  "dominant_emotion (analyze_content ''omg'') = ''reaction''
   \<and> generate_engaging_title 4 ''clip'' (analyze_content ''omg'') ''Ninja''
       = ''Ninja HIGHLIGHTS! '' @ [CHR 0xE2, CHR 0xAD, CHR 0x90]"
proof -
  have dom: "dominant_emotion (analyze_content ''omg'') = ''reaction''"
    by code_simp
  from reaction_uses_neutral_titles[OF dom, of "''Ninja''" 4 "''clip''"]
  have "generate_engaging_title 4 ''clip'' (analyze_content ''omg'') ''Ninja''
          = neutral_titles ''Ninja'' ! (4 mod 3)"
    by blast
  then show ?thesis using dom by (simp add: neutral_titles_def)
qed


section \<open>Properties of the initialisation\<close>

lemma missing_filter:
  "map fst (filter (\<lambda>(key, v). \<not> truthy v) (map (\<lambda>k. (k, env k)) names))
     = filter (\<lambda>k. \<not> truthy (env k)) names"
  by (induction names) auto

lemma missing_creds_init:
  "missing_creds (load_attributes env wa wl) = filter (\<lambda>k. \<not> truthy (env k)) credential_names"
proof -
  have "required_creds (load_attributes env wa wl) = map (\<lambda>k. (k, env k)) credential_names"
    by (simp add: required_creds_def load_attributes_def credential_names_def)
  then show ?thesis by (simp add: missing_creds_def missing_filter)
qed

lemma make_dirs_ok:
  assumes "mk ''downloads''" and "mk ''processed''" and "mk ''uploads''"
  shows "make_dirs mk [''downloads'', ''processed'', ''uploads'']
           = (None, [Mkdir ''downloads'', Mkdir ''processed'', Mkdir ''uploads''])"
  using assms by simp

lemma init_dirs_ok:
  assumes "mk ''downloads''" and "mk ''processed''" and "mk ''uploads''"
  shows "init env wa wc wl mk =
     (case validate_credentials (load_attributes env wa wl) of
        Inl e \<Rightarrow> Inl e
      | Inr _ \<Rightarrow> Inr (load_attributes env wa wl),
      (if wa then Load_whisper_model # (if wc then [] else [Fetch_whisper_checkpoint]) else [])
        @ [Mkdir ''downloads'', Mkdir ''processed'', Mkdir ''uploads''])"
  unfolding init_def make_dirs_ok[OF assms]
  by (simp add: Let_def split: sum.split)

lemma snd_init:
  assumes "mk ''downloads''" and "mk ''processed''" and "mk ''uploads''"
  shows "snd (init env wa wc wl mk) =
     (if wa then Load_whisper_model # (if wc then [] else [Fetch_whisper_checkpoint]) else [])
       @ [Mkdir ''downloads'', Mkdir ''processed'', Mkdir ''uploads'']"
  unfolding init_dirs_ok[OF assms] by simp

lemma fst_init:
  assumes "mk ''downloads''" and "mk ''processed''" and "mk ''uploads''"
  shows "fst (init env wa wc wl mk) =
     (if filter (\<lambda>k. \<not> truthy (env k)) credential_names \<noteq> []
      then Inl (Exception (''Missing credentials: ''
             @ str_join '', '' (filter (\<lambda>k. \<not> truthy (env k)) credential_names)))
      else Inr (load_attributes env wa wl))"
  unfolding init_dirs_ok[OF assms]
  by (simp add: validate_credentials_def missing_creds_init)

lemma init_returns_attributes:
  assumes "fst (init env wa wc wl mk) = Inr self"
  shows "self = load_attributes env wa wl"
proof -
  obtain failed made where
    dirs: "make_dirs mk [''downloads'', ''processed'', ''uploads''] = (failed, made)"
    by (cases "make_dirs mk [''downloads'', ''processed'', ''uploads'']")
  have "fst (init env wa wc wl mk) =
      (case failed of
         Some e \<Rightarrow> Inl e
       | None \<Rightarrow> (case validate_credentials (load_attributes env wa wl) of
                    Inl e \<Rightarrow> Inl e
                  | Inr _ \<Rightarrow> Inr (load_attributes env wa wl)))"
    unfolding init_def dirs by (simp add: Let_def split: option.split sum.split)
  with assms show ?thesis by (simp split: option.splits sum.splits)
qed


text \<open>
  C6, as amended. If one of the seven required credentials is unset or empty and
  the three directories can be created, the constructor raises an exception whose
  message is \<open>Missing credentials: \<close> followed by the names of all unset or empty
  credentials, joined by a comma and a space, so the message contains the name of
  each of them, and \<open>main\<close> returns 1. Before that failure the program makes none of
  its own requests; the only call to the network among the events of the run is
  the download of the Whisper checkpoint, which is made exactly when Whisper is
  importable and the checkpoint is not in the cache.
\<close>

theorem missing_credentials_fail_before_requests:
  assumes "key \<in> set credential_names" and "\<not> truthy (environ w key)"
    and "mkdir_ok w ''downloads''" and "mkdir_ok w ''processed''" and "mkdir_ok w ''uploads''"
  shows "\<exists>message.
      fst (init (environ w) (whisper_available w) (whisper_cached w) (whisper_loads w)
             (mkdir_ok w)) = Inl (Exception message)
      \<and> message = ''Missing credentials: ''
            @ str_join '', '' (filter (\<lambda>k. \<not> truthy (environ w k)) credential_names)
      \<and> (\<exists>before after. message = before @ key @ after)
      \<and> fst (main w) = 1
      \<and> (\<forall>e\<in>set (snd (main w)). is_network_call e \<longrightarrow> e = Fetch_whisper_checkpoint)
      \<and> (Fetch_whisper_checkpoint \<in> set (snd (main w))
           \<longleftrightarrow> whisper_available w \<and> \<not> whisper_cached w)"
proof -
  let ?missing = "filter (\<lambda>k. \<not> truthy (environ w k)) credential_names"
  let ?message = "''Missing credentials: '' @ str_join '', '' ?missing"
  let ?init = "init (environ w) (whisper_available w) (whisper_cached w) (whisper_loads w)
                 (mkdir_ok w)"
  note dirs = assms(3-5)
  from assms(1,2) have key: "key \<in> set ?missing" by simp
  have "?missing \<noteq> []" using assms(1,2) by (auto simp: filter_empty_conv)
  then have failed: "fst ?init = Inl (Exception ?message)" by (simp add: fst_init[OF dirs])
  from str_join_contains[OF key, of "'', ''"] obtain before after where
    "str_join '', '' ?missing = before @ key @ after" by blast
  then have "?message = (''Missing credentials: '' @ before) @ key @ after" by simp
  then have named: "\<exists>before after. ?message = before @ key @ after" by blast
  have returned: "main w = (1, snd ?init)"
    using failed by (cases ?init) (simp add: main_def)
  have events: "snd (main w) =
     (if whisper_available w
      then Load_whisper_model # (if whisper_cached w then [] else [Fetch_whisper_checkpoint])
      else [])
       @ [Mkdir ''downloads'', Mkdir ''processed'', Mkdir ''uploads'']"
    by (simp add: returned snd_init[OF dirs])
  have quiet: "\<forall>e\<in>set (snd (main w)). is_network_call e \<longrightarrow> e = Fetch_whisper_checkpoint"
    unfolding events by auto
  have fetch: "Fetch_whisper_checkpoint \<in> set (snd (main w))
           \<longleftrightarrow> whisper_available w \<and> \<not> whisper_cached w"
    unfolding events by auto
  have status: "fst (main w) = 1" by (simp add: returned)
  show ?thesis using failed named status quiet fetch by blast
qed

text \<open>
  An environment without \<open>TWITCH_CLIENT_ID\<close> and with an empty \<open>YOUTUBE_API_KEY\<close>, and
  the checkpoint not in the cache.
\<close>

theorem missing_credentials_fail_before_requests_witness:
  "''YOUTUBE_API_KEY'' \<in> set credential_names
   \<and> \<not> truthy (environ world_missing_uncached ''YOUTUBE_API_KEY'')
   \<and> mkdir_ok world_missing_uncached ''downloads''
   \<and> mkdir_ok world_missing_uncached ''processed''
   \<and> mkdir_ok world_missing_uncached ''uploads''
   \<and> fst (main world_missing_uncached) = 1
   \<and> Fetch_whisper_checkpoint \<in> set (snd (main world_missing_uncached))"
proof -
  have k: "''YOUTUBE_API_KEY'' \<in> set credential_names" by (simp add: credential_names_def)
  have m: "\<not> truthy (environ world_missing_uncached ''YOUTUBE_API_KEY'')"
    by (simp add: world_missing_uncached_def world_missing_def env_missing_def)
  have d: "mkdir_ok world_missing_uncached ''downloads''"
    "mkdir_ok world_missing_uncached ''processed''"
    "mkdir_ok world_missing_uncached ''uploads''"
    by (simp_all add: world_missing_uncached_def world_missing_def)
  have w: "whisper_available world_missing_uncached \<and> \<not> whisper_cached world_missing_uncached"
    by (simp add: world_missing_uncached_def world_missing_def)
  from missing_credentials_fail_before_requests[OF k m d] w
  have "fst (main world_missing_uncached) = 1
      \<and> Fetch_whisper_checkpoint \<in> set (snd (main world_missing_uncached))"
    by blast
  then show ?thesis using k m d by blast
qed

text \<open>
  C6 as stated fails in two ways. With the checkpoint not in the cache, the
  constructor raises the missing-credentials exception after \<open>load_model\<close> has gone to
  the network. With a regular file named \<open>downloads\<close>, the first \<open>mkdir\<close> raises, and
  the constructor leaves with that error and not with one that names the missing
  credentials.
\<close>

theorem missing_credentials_counterexample:
  "\<not> truthy (environ world_missing_uncached ''TWITCH_CLIENT_ID'')
   \<and> main world_missing_uncached
       = (1, [Load_whisper_model, Fetch_whisper_checkpoint,
              Mkdir ''downloads'', Mkdir ''processed'', Mkdir ''uploads''])
   \<and> is_network_call Fetch_whisper_checkpoint
   \<and> \<not> truthy (environ world_missing_no_mkdir ''TWITCH_CLIENT_ID'')
   \<and> fst (init (environ world_missing_no_mkdir) (whisper_available world_missing_no_mkdir)
            (whisper_cached world_missing_no_mkdir) (whisper_loads world_missing_no_mkdir)
            (mkdir_ok world_missing_no_mkdir))
       = Inl (OSError ''downloads'')
   \<and> main world_missing_no_mkdir = (1, [Load_whisper_model, Mkdir ''downloads''])"
  by code_simp


text \<open>
  C10. If \<open>YOUTUBE_STREAMERS\<close> is unset or empty, the streamer list of the constructed
  object is the one-element list holding the empty string, not the empty list.
\<close>

theorem unset_streamers_is_list_of_empty_string:
  assumes "env ''YOUTUBE_STREAMERS'' = None \<or> env ''YOUTUBE_STREAMERS'' = Some []"
    and "fst (init env wa wc wl mk) = Inr self"
  shows "youtube_streamers self = [[]] \<and> youtube_streamers self \<noteq> []"
proof -
  from assms(1) have "getenv_default env ''YOUTUBE_STREAMERS'' [] = []"
    by (auto simp: getenv_default_def)
  then have "youtube_streamers (load_attributes env wa wl) = [[]]"
    by (simp add: load_attributes_def str_split_empty)
  moreover from assms(2) have "self = load_attributes env wa wl"
    by (rule init_returns_attributes)
  ultimately show ?thesis by simp
qed

text \<open>In \<open>env_ok\<close> the variable is unset and the constructor succeeds.\<close>

theorem unset_streamers_is_list_of_empty_string_witness:
  "env_ok ''YOUTUBE_STREAMERS'' = None
   \<and> fst (init env_ok True True True (\<lambda>path. True)) = Inr (load_attributes env_ok True True)
   \<and> youtube_streamers (load_attributes env_ok True True) = [[]]"
proof -
  have unset: "env_ok ''YOUTUBE_STREAMERS'' = None" by (simp add: env_ok_def)
  have ok: "fst (init env_ok True True True (\<lambda>path. True))
              = Inr (load_attributes env_ok True True)"
    by (simp add: fst_init credential_names_def env_ok_def)
  from unset_streamers_is_list_of_empty_string[OF disjI1[OF unset] ok]
  show ?thesis using unset ok by simp
qed


section \<open>Properties of the upload\<close>

lemma upload_ok_succeeds:
  "upload_to_youtube_shorts upload_ok ''uploads/final_x.mp4'' ''title'' ''description'' [] =
     (True, [Http_post init_url, Open_read ''uploads/final_x.mp4'',
             Http_put ''https://upload.example/session''])"
  by (simp add: upload_to_youtube_shorts_def upload_ok_def)

lemma upload_without_id:
  assumes "video_put w = Some upload_response"
    and "body upload_response = Json_object video_id" and "\<not> truthy video_id"
  shows "fst (upload_to_youtube_shorts w video_path title description tags) = False"
  using assms
  by (simp add: upload_to_youtube_shorts_def split: option.splits)

text \<open>
  C5. If the token is there and the initiation request returns status 200 or 201
  with no \<open>Location\<close> header (or an empty one), \<open>upload_to_youtube_shorts\<close> returns
  \<open>False\<close> and its only request is the initiation POST: the file is not read and no
  PUT is made. If the PUT returns status 200 or 201 with a JSON body that has no
  \<open>id\<close> (or an empty one), the result is \<open>False\<close> as well.
\<close>

theorem upload_fails_without_location_or_id:
  "(truthy (access_token w) \<and> init_post w = Some init_response
      \<and> init_status init_response \<in> {200, 201} \<and> \<not> truthy (location init_response)
     \<longrightarrow> upload_to_youtube_shorts w video_path title description tags
           = (False, [Http_post init_url])
         \<and> (\<forall>url. Http_put url
               \<notin> set (snd (upload_to_youtube_shorts w video_path title description tags))))
   \<and> (video_put w = Some upload_response \<and> put_status upload_response \<in> {200, 201}
      \<and> body upload_response = Json_object video_id \<and> \<not> truthy video_id
     \<longrightarrow> fst (upload_to_youtube_shorts w video_path title description tags) = False)"
proof (intro conjI impI)
  assume a: "truthy (access_token w) \<and> init_post w = Some init_response
      \<and> init_status init_response \<in> {200, 201} \<and> \<not> truthy (location init_response)"
  then have "location init_response = None \<or> location init_response = Some []"
    by (cases "location init_response") auto
  with a show r: "upload_to_youtube_shorts w video_path title description tags
           = (False, [Http_post init_url])"
    by (auto simp: upload_to_youtube_shorts_def)
  show "\<forall>url. Http_put url
               \<notin> set (snd (upload_to_youtube_shorts w video_path title description tags))"
    by (simp add: r)
next
  assume "video_put w = Some upload_response \<and> put_status upload_response \<in> {200, 201}
      \<and> body upload_response = Json_object video_id \<and> \<not> truthy video_id"
  then show "fst (upload_to_youtube_shorts w video_path title description tags) = False"
    using upload_without_id by blast
qed

text \<open>The two example uploads; the second reaches the PUT and still fails.\<close>

theorem upload_fails_without_location_or_id_witness:
  "upload_to_youtube_shorts upload_no_location ''uploads/final_x.mp4'' ''title'' ''description'' []
     = (False, [Http_post init_url])
   \<and> init_post upload_no_location = Some \<lparr>init_status = 200, location = None\<rparr>
   \<and> truthy (access_token upload_no_location)
   \<and> video_put upload_no_id = Some \<lparr>put_status = 200, body = Json_object None\<rparr>
   \<and> upload_to_youtube_shorts upload_no_id ''uploads/final_x.mp4'' ''title'' ''description'' []
       = (False, [Http_post init_url, Open_read ''uploads/final_x.mp4'',
                  Http_put ''https://upload.example/session''])"
proof -
  have a: "truthy (access_token upload_no_location)
      \<and> init_post upload_no_location = Some \<lparr>init_status = 200, location = None\<rparr>
      \<and> init_status \<lparr>init_status = 200, location = None\<rparr> \<in> {200, 201}
      \<and> \<not> truthy (location \<lparr>init_status = 200, location = None\<rparr>)"
    by (simp add: upload_no_location_def upload_ok_def)
  have b: "video_put upload_no_id = Some \<lparr>put_status = 200, body = Json_object None\<rparr>
      \<and> put_status \<lparr>put_status = 200, body = Json_object None\<rparr> \<in> {200, 201}
      \<and> body \<lparr>put_status = 200, body = Json_object None\<rparr> = Json_object None
      \<and> \<not> truthy None"
    by (simp add: upload_no_id_def upload_ok_def)
  have c: "snd (upload_to_youtube_shorts upload_no_id ''uploads/final_x.mp4'' ''title''
                  ''description'' [])
       = [Http_post init_url, Open_read ''uploads/final_x.mp4'',
          Http_put ''https://upload.example/session'']"
    by (simp add: upload_to_youtube_shorts_def upload_no_id_def upload_ok_def)
  from upload_fails_without_location_or_id[where w = upload_no_location
      and init_response = "\<lparr>init_status = 200, location = None\<rparr>"
      and video_path = "''uploads/final_x.mp4''" and title = "''title''"
      and description = "''description''" and tags = "[]"] a
  have 1: "upload_to_youtube_shorts upload_no_location ''uploads/final_x.mp4'' ''title''
             ''description'' [] = (False, [Http_post init_url])"
    by blast
  from upload_fails_without_location_or_id[where w = upload_no_id
      and upload_response = "\<lparr>put_status = 200, body = Json_object None\<rparr>"
      and video_id = None
      and video_path = "''uploads/final_x.mp4''" and title = "''title''"
      and description = "''description''" and tags = "[]"] b
  have 2: "fst (upload_to_youtube_shorts upload_no_id ''uploads/final_x.mp4'' ''title''
             ''description'' []) = False"
    by blast
  from 2 c have 3: "upload_to_youtube_shorts upload_no_id ''uploads/final_x.mp4'' ''title''
             ''description'' []
       = (False, [Http_post init_url, Open_read ''uploads/final_x.mp4'',
                  Http_put ''https://upload.example/session''])"
    by (simp add: prod_eq_iff)
  show ?thesis using 1 3 a b by simp
qed


section \<open>Properties of the floating-point operations\<close>

subsection \<open>The exponent\<close>





lemma exponent_of_minus [simp]: "exponent_of (- x) = exponent_of x"
  by (simp add: exponent_of_def)



subsection \<open>Rounding to an integer\<close>






subsection \<open>Rounding to a double\<close>


lemma quantum_minus [simp]: "quantum (- x) = quantum x"
  by (simp add: quantum_def)



lemma of_int_two_power: "(of_int (2 ^ n) :: rat) = 2 powi int n"
  by (simp add: power_int_def)












section \<open>Properties of the trimming\<close>









section \<open>Properties of the pipeline\<close>

subsection \<open>One iteration\<close>

lemma cleanup_removals: "\<forall>e\<in>set (snd (cleanup removable paths fs)). is_removal e"
  by (induction paths arbitrary: fs) (auto simp: split_beta)

lemma uploads_succeeded_removals:
  "\<forall>e\<in>set events. is_removal e \<Longrightarrow> uploads_succeeded events = 0"
  unfolding uploads_succeeded_def
  by (induction events) (auto elim: is_removal.elims)

lemma uploads_succeeded_append:
  "uploads_succeeded (xs @ ys) = uploads_succeeded xs + uploads_succeeded ys"
  by (simp add: uploads_succeeded_def)

lemma uploads_succeeded_transcribe:
  "uploads_succeeded (snd (transcribe_audio self w path)) = 0"
  by (simp add: transcribe_audio_def uploads_succeeded_def)

lemma reports_process_clip:
  "\<exists>report. reports (process_clip self w clip st) = reports st @ [report]"
  by (simp add: process_clip_def Let_def split_beta split: clip.split option.split)

lemma uploads_succeeded_cleanup [simp]:
  "uploads_succeeded (snd (cleanup removable paths fs)) = 0"
  by (rule uploads_succeeded_removals) (rule cleanup_removals)

lemma uploads_succeeded_simps [simp]:
  "uploads_succeeded [] = 0"
  "uploads_succeeded (e # events) = (if upload_succeeded e then 1 else 0) + uploads_succeeded events"
  by (simp_all add: uploads_succeeded_def)

lemma count_process_clip:
  "processed_count (process_clip self w clip st)
     = processed_count st + uploads_succeeded (last (reports (process_clip self w clip st)))"
  by (simp add: process_clip_def Let_def split_beta uploads_succeeded_append
      uploads_succeeded_transcribe split: clip.split option.split)

lemma one_upload_process_clip:
  "uploads_succeeded (last (reports (process_clip self w clip st))) \<le> 1"
  by (simp add: process_clip_def Let_def split_beta uploads_succeeded_append
      uploads_succeeded_transcribe split: clip.split option.split)

lemma not_download_removal: "is_removal e \<Longrightarrow> e \<noteq> Download_clip url filename ok"
  by (cases e) auto

lemma cleanup_no_download:
  "Download_clip url filename ok \<notin> set (snd (cleanup removable paths fs))"
  using cleanup_removals[of removable paths fs] not_download_removal by blast

lemma transcribe_no_download:
  "Download_clip url filename ok \<notin> set (snd (transcribe_audio self w path))"
  by (simp add: transcribe_audio_def)

lemma failed_download_process_clip:
  "Download_clip url filename False \<in> set (last (reports (process_clip self w clip st)))
     \<longrightarrow> last (reports (process_clip self w clip st)) = [Download_clip url filename False]"
  by (simp add: process_clip_def Let_def split_beta cleanup_no_download transcribe_no_download
      split: clip.split option.split)


subsection \<open>The loop\<close>

lemma uploads_succeeded_concat_snoc:
  "uploads_succeeded (concat (xs @ [r])) = uploads_succeeded (concat xs) + uploads_succeeded r"
  by (simp add: uploads_succeeded_append)

lemma loop_invariant_step:
  assumes inv: "loop_invariant max_uploads st" and room: "processed_count st < max_uploads"
  shows "loop_invariant max_uploads (process_clip self w clip st)"
proof -
  let ?st' = "process_clip self w clip st"
  from reports_process_clip[of self w clip st] obtain report where
    reps: "reports ?st' = reports st @ [report]" by blast
  then have last: "last (reports ?st') = report" by simp
  have count: "processed_count ?st' = uploads_succeeded (concat (reports ?st'))"
    using inv count_process_clip[of self w clip st] last
    by (simp add: loop_invariant_def reps uploads_succeeded_append)
  have starts: "uploads_succeeded (concat (take k (reports ?st'))) < max_uploads"
    if "k < length (reports ?st')" for k
  proof (cases "k < length (reports st)")
    case True
    then show ?thesis using inv by (simp add: loop_invariant_def reps)
  next
    case False
    with that have "k = length (reports st)" by (simp add: reps)
    then have "take k (reports ?st') = reports st" by (simp add: reps)
    then show ?thesis using inv room by (simp add: loop_invariant_def)
  qed
  have one: "uploads_succeeded report \<le> 1"
    using one_upload_process_clip[of self w clip st] last by simp
  have failed: "\<forall>url filename. Download_clip url filename False \<in> set report
                 \<longrightarrow> report = [Download_clip url filename False]"
    using failed_download_process_clip[of _ _ self w clip st] last by simp
  show ?thesis
    unfolding loop_invariant_def
  proof (intro conjI)
    show "processed_count ?st' = uploads_succeeded (concat (reports ?st'))" by (rule count)
    show "\<forall>k<length (reports ?st'). uploads_succeeded (concat (take k (reports ?st'))) < max_uploads"
      using starts by blast
    show "\<forall>report\<in>set (reports ?st').
           uploads_succeeded report \<le> 1
           \<and> (\<forall>url filename. Download_clip url filename False \<in> set report
                 \<longrightarrow> report = [Download_clip url filename False])"
      using inv one failed by (auto simp: loop_invariant_def reps)
  qed
qed

lemma loop_invariant_clips_loop:
  "loop_invariant max_uploads st
     \<Longrightarrow> loop_invariant max_uploads (clips_loop self worlds max_uploads i clips st)"
proof (induction clips arbitrary: st i)
  case Nil
  then show ?case by simp
next
  case (Cons clip rest)
  show ?case
  proof (cases "processed_count st \<ge> max_uploads")
    case True
    then show ?thesis using Cons.prems by simp
  next
    case False
    then have step: "loop_invariant max_uploads (process_clip self (worlds i) clip st)"
      using Cons.prems by (intro loop_invariant_step) simp_all
    show ?thesis
    proof (cases "raised (process_clip self (worlds i) clip st) \<noteq> None")
      case True
      with False step show ?thesis by (simp add: Let_def)
    next
      case no_raise: False
      with False Cons.IH[OF step, of "Suc i"] show ?thesis by (simp add: Let_def)
    qed
  qed
qed

lemma length_reports_clips_loop:
  "length (reports (clips_loop self worlds max_uploads i clips st))
     \<le> length (reports st) + length clips"
proof (induction clips arbitrary: st i)
  case Nil
  show ?case by simp
next
  case (Cons clip rest)
  from reports_process_clip[of self "worlds i" clip st]
  have len: "length (reports (process_clip self (worlds i) clip st)) = Suc (length (reports st))"
    by auto
  show ?case
    using Cons.IH[of "Suc i" "process_clip self (worlds i) clip st"] len
    by (simp add: Let_def)
qed

lemma clips_loop_stops:
  "length (reports (clips_loop self worlds max_uploads i clips st))
       = length (reports st) + length clips
   \<or> processed_count (clips_loop self worlds max_uploads i clips st) \<ge> max_uploads
   \<or> raised (clips_loop self worlds max_uploads i clips st) \<noteq> None"
proof (induction clips arbitrary: st i)
  case Nil
  show ?case by simp
next
  case (Cons clip rest)
  from reports_process_clip[of self "worlds i" clip st]
  have len: "length (reports (process_clip self (worlds i) clip st)) = Suc (length (reports st))"
    by auto
  show ?case
    using Cons.IH[of "Suc i" "process_clip self (worlds i) clip st"] len
    by (simp add: Let_def)
qed

lemma loop_invariant_count_bound:
  assumes "loop_invariant max_uploads st"
  shows "processed_count st \<le> max_uploads"
proof (cases "reports st" rule: rev_cases)
  case Nil
  with assms show ?thesis by (simp add: loop_invariant_def)
next
  case (snoc earlier report)
  with assms have "uploads_succeeded (concat (take (length earlier) (reports st))) < max_uploads"
    unfolding loop_invariant_def by (metis length_append_singleton lessI)
  then have "uploads_succeeded (concat earlier) < max_uploads" using snoc by simp
  moreover have "uploads_succeeded report \<le> 1" using assms snoc by (simp add: loop_invariant_def)
  moreover have "processed_count st = uploads_succeeded (concat earlier) + uploads_succeeded report"
    using assms snoc by (simp add: loop_invariant_def uploads_succeeded_append)
  ultimately show ?thesis by simp
qed

lemma process_clips_unfold:
  "process_clips self w =
     (if twitch_clips w = []
      then (Inr 0, \<lparr>disk = initial_files w, processed_count = 0, reports = [], raised = None\<rparr>)
      else (case raised (clips_loop self (clip_worlds w) 3 0 (take 6 (twitch_clips w))
                  \<lparr>disk = initial_files w, processed_count = 0, reports = [], raised = None\<rparr>) of
              Some e \<Rightarrow> Inl e
            | None \<Rightarrow> Inr (processed_count
                (clips_loop self (clip_worlds w) 3 0 (take 6 (twitch_clips w))
                  \<lparr>disk = initial_files w, processed_count = 0, reports = [], raised = None\<rparr>)),
            clips_loop self (clip_worlds w) 3 0 (take 6 (twitch_clips w))
              \<lparr>disk = initial_files w, processed_count = 0, reports = [], raised = None\<rparr>))"
  by (simp add: process_clips_def Let_def cong: option.case_cong)

lemma fst_process_clips:
  "raised (snd (process_clips self w)) = None
     \<Longrightarrow> fst (process_clips self w) = Inr (processed_count (snd (process_clips self w)))"
  by (cases "twitch_clips w = []") (simp_all add: process_clips_unfold)

lemma loop_invariant_process_clips: "loop_invariant 3 (snd (process_clips self w))"
proof -
  have "loop_invariant 3
          \<lparr>disk = initial_files w, processed_count = 0, reports = [], raised = None\<rparr>"
    by (simp add: loop_invariant_def)
  then show ?thesis
    by (simp add: process_clips_unfold loop_invariant_clips_loop)
qed

lemma length_reports_process_clips:
  "length (reports (snd (process_clips self w))) \<le> min 6 (length (twitch_clips w))"
proof (cases "twitch_clips w = []")
  case True
  then show ?thesis by (simp add: process_clips_unfold)
next
  case False
  let ?st = "\<lparr>disk = initial_files w, processed_count = 0, reports = [], raised = None\<rparr>"
  have "length (reports (clips_loop self (clip_worlds w) 3 0 (take 6 (twitch_clips w)) ?st))
          \<le> length (reports ?st) + length (take 6 (twitch_clips w))"
    by (rule length_reports_clips_loop)
  with False show ?thesis by (simp add: process_clips_unfold min.commute)
qed

lemma process_clips_stops:
  "length (reports (snd (process_clips self w))) = min 6 (length (twitch_clips w))
   \<or> processed_count (snd (process_clips self w)) \<ge> 3
   \<or> raised (snd (process_clips self w)) \<noteq> None"
proof (cases "twitch_clips w = []")
  case True
  then show ?thesis by (simp add: process_clips_unfold)
next
  case False
  let ?st = "\<lparr>disk = initial_files w, processed_count = 0, reports = [], raised = None\<rparr>"
  from clips_loop_stops[of self "clip_worlds w" 3 0 "take 6 (twitch_clips w)" ?st] False
  show ?thesis by (simp add: process_clips_unfold min.commute)
qed

text \<open>
  C4. In every run \<open>process_clips\<close> runs at most 6 iterations, one for each of the
  first candidates; the counter of successful uploads ends at most at 3 and equals
  the number of uploads that succeeded; every iteration began with fewer than 3
  successful uploads, so no clip is considered once the counter has reached 3; and
  in an iteration whose download returned \<open>False\<close> neither the reformatter nor the
  trimmer nor the uploader is called. The loop ends only when the first 6 candidates
  are used up, the counter is 3, or an exception leaves it.
\<close>

theorem process_clips_bounded:
  "length (reports (snd (process_clips self w))) \<le> 6
   \<and> length (reports (snd (process_clips self w))) \<le> length (twitch_clips w)
   \<and> processed_count (snd (process_clips self w)) \<le> 3
   \<and> processed_count (snd (process_clips self w))
       = uploads_succeeded (concat (reports (snd (process_clips self w))))
   \<and> (\<forall>k<length (reports (snd (process_clips self w))).
         uploads_succeeded (concat (take k (reports (snd (process_clips self w))))) < 3)
   \<and> (\<forall>report\<in>set (reports (snd (process_clips self w))).
         \<forall>url filename. Download_clip url filename False \<in> set report
           \<longrightarrow> (\<forall>e\<in>set report. \<not> later_stage e))
   \<and> (length (reports (snd (process_clips self w))) = min 6 (length (twitch_clips w))
       \<or> processed_count (snd (process_clips self w)) = 3
       \<or> raised (snd (process_clips self w)) \<noteq> None)
   \<and> (raised (snd (process_clips self w)) = None
        \<longrightarrow> fst (process_clips self w) = Inr (processed_count (snd (process_clips self w))))"
proof -
  let ?st = "snd (process_clips self w)"
  note inv = loop_invariant_process_clips[of self w]
  have len: "length (reports ?st) \<le> 6" "length (reports ?st) \<le> length (twitch_clips w)"
    using length_reports_process_clips[of self w] by simp_all
  have cap: "processed_count ?st \<le> 3" using inv by (rule loop_invariant_count_bound)
  have count: "processed_count ?st = uploads_succeeded (concat (reports ?st))"
    using inv by (simp add: loop_invariant_def)
  have starts: "\<forall>k<length (reports ?st). uploads_succeeded (concat (take k (reports ?st))) < 3"
    using inv by (simp add: loop_invariant_def)
  have failed: "\<forall>report\<in>set (reports ?st).
         \<forall>url filename. Download_clip url filename False \<in> set report
           \<longrightarrow> (\<forall>e\<in>set report. \<not> later_stage e)"
  proof (intro ballI allI impI)
    fix report url filename e
    assume "report \<in> set (reports ?st)" "Download_clip url filename False \<in> set report"
      "e \<in> set report"
    with inv have "report = [Download_clip url filename False]"
      unfolding loop_invariant_def by blast
    with \<open>e \<in> set report\<close> show "\<not> later_stage e" by simp
  qed
  have stops: "length (reports ?st) = min 6 (length (twitch_clips w))
       \<or> processed_count ?st = 3 \<or> raised ?st \<noteq> None"
    using process_clips_stops[of self w] cap by auto
  have returned: "raised ?st = None \<longrightarrow> fst (process_clips self w) = Inr (processed_count ?st)"
    using fst_process_clips by blast
  show ?thesis using len cap count starts failed stops returned by blast
qed

text \<open>
  Eight clips; the first download fails, the second reformatting fails, the next
  three clips are uploaded, and the loop stops after five iterations.
\<close>

lemma world_mixed_run:
  "fst (process_clips automation_ok world_mixed) = Inr 3
   \<and> map length (reports (snd (process_clips automation_ok world_mixed))) = [1, 3, 9, 9, 9]
   \<and> hd (reports (snd (process_clips automation_ok world_mixed)))
       = [Download_clip ''https://clips.twitch.tv/a'' ''twitch_clip_a.mp4'' False]
   \<and> length (twitch_clips world_mixed) = 8"
  by code_simp


theorem process_clips_bounded_witness:
  "length (twitch_clips world_mixed) = 8
   \<and> length (reports (snd (process_clips automation_ok world_mixed))) = 5
   \<and> processed_count (snd (process_clips automation_ok world_mixed)) = 3
   \<and> hd (reports (snd (process_clips automation_ok world_mixed)))
       = [Download_clip ''https://clips.twitch.tv/a'' ''twitch_clip_a.mp4'' False]
   \<and> uploads_succeeded (concat (reports (snd (process_clips automation_ok world_mixed)))) = 3"
proof -
  have "length (map length (reports (snd (process_clips automation_ok world_mixed)))) = 5"
    using world_mixed_run by simp
  then have len: "length (reports (snd (process_clips automation_ok world_mixed))) = 5"
    by simp
  have count: "processed_count (snd (process_clips automation_ok world_mixed)) = 3"
    by code_simp
  from process_clips_bounded[of automation_ok world_mixed]
  have "processed_count (snd (process_clips automation_ok world_mixed))
       = uploads_succeeded (concat (reports (snd (process_clips automation_ok world_mixed))))"
    by blast
  with count len world_mixed_run show ?thesis by simp
qed


subsection \<open>Cleanup\<close>

text \<open>
  C2. The cleanup stands after the upload, inside the \<open>try\<close> block, and every
  \<open>continue\<close> before it leaves the iteration without it. For a clip whose download
  succeeds (5000 bytes) and whose reformatting fails, the iteration makes no removal
  and the raw download is still on disk when \<open>process_clips\<close> returns.
\<close>

theorem failed_reformat_skips_cleanup:
  "fst (process_clips automation_ok world_vertical_fails) = Inr 0
   \<and> reports (snd (process_clips automation_ok world_vertical_fails))
       = [[Download_clip ''https://clips.twitch.tv/a'' ''twitch_clip_a.mp4'' True,
           Transcribe_audio ''downloads/twitch_clip_a.mp4'',
           Create_vertical_video ''downloads/twitch_clip_a.mp4''
             ''processed/vertical_twitch_clip_a.mp4'' False]]
   \<and> disk (snd (process_clips automation_ok world_vertical_fails))
        ''downloads/twitch_clip_a.mp4'' = Some 5000"
  by code_simp

text \<open>When the upload itself fails, the same three files are removed.\<close>

lemma failed_upload_cleans_up:
  "fst (process_clips automation_ok world_upload_fails) = Inr 0
   \<and> drop 4 (hd (reports (snd (process_clips automation_ok world_upload_fails))))
       = [Upload_to_youtube_shorts ''uploads/final_twitch_clip_a.mp4''
            (''Ninja HIGHLIGHTS! '' @ [CHR 0xE2, CHR 0xAD, CHR 0x90]) False,
          Os_remove ''downloads/twitch_clip_a.mp4'',
          Os_remove ''processed/vertical_twitch_clip_a.mp4'',
          Os_remove ''uploads/final_twitch_clip_a.mp4'',
          Sleep 30]
   \<and> map (disk (snd (process_clips automation_ok world_upload_fails)))
        [''downloads/twitch_clip_a.mp4'', ''processed/vertical_twitch_clip_a.mp4'',
         ''uploads/final_twitch_clip_a.mp4'']
       = [None, None, None]"
  by code_simp


section \<open>Properties of the entry point\<close>

lemma run_module_status: "fst (run_module w) = 0"
  by (simp add: run_module_def split_beta)

lemma main_status:
  "fst (main w) =
     (case fst (init (environ w) (whisper_available w) (whisper_cached w) (whisper_loads w)
                  (mkdir_ok w)) of
        Inl e \<Rightarrow> 1
      | Inr automation \<Rightarrow> (case fst (process_clips automation w) of Inl e \<Rightarrow> 1 | Inr n \<Rightarrow> 0))"
  by (simp add: main_def split_beta split: prod.splits sum.splits)

text \<open>
  C3. \<open>main\<close> returns 1 when the constructor raises (two credentials missing) and
  when \<open>process_clips\<close> raises (a clip that is not an object), and 0 on a run that
  finds no clips; the module drops that value, and the exit status is 0 in all three
  runs.
\<close>

theorem exit_status_ignores_main:
  "main world_missing
     = (1, [Load_whisper_model, Mkdir ''downloads'', Mkdir ''processed'', Mkdir ''uploads''])
   \<and> run_module world_missing
     = (0, [Load_whisper_model, Mkdir ''downloads'', Mkdir ''processed'', Mkdir ''uploads''])
   \<and> fst (main world_not_a_dict) = 1
   \<and> fst (run_module world_not_a_dict) = 0
   \<and> fst (main world_no_clips) = 0
   \<and> fst (run_module world_no_clips) = 0"
  by code_simp


end
